theory Spec2Isabelle
  imports Main "HOL-Library.Sublist" "HOL-Library.Multiset" "HOL-Library.Monad_Syntax"
begin

section \<open>Data model of index.tsx\<close>

text \<open>
  JavaScript strings are modelled as \<^typ>\<open>string\<close>. The interfaces of the source become
  records. \<open>Date.now()\<close> yields an integer number of milliseconds, modelled as \<^typ>\<open>int\<close>.
\<close>

record GrammarPoint =
  pattern :: string
  explanation :: string

record VocabularyItem =
  word :: string
  reading :: string
  meaning :: string
  partOfSpeech :: string

text \<open>The element type of \<open>allVocab\<close> in \<open>DictionaryTab\<close>:
  \<open>VocabularyItem & { language: string }\<close>.\<close>

record VocabEntry = VocabularyItem +
  language :: string

text \<open>
  \<open>interface QaResult\<close>. Its \<open>id\<close> is named \<open>ident\<close> here (\<open>id\<close> is the identity
  function of HOL); the optional \<open>relatedSentence\<close> is an option.
\<close>

record QaResult =
  ident :: string
  timestamp :: int
  question :: string
  answer :: string
  relatedSentence :: "string option"

text \<open>
  The object \<open>analyzeSentence\<close> returns, with the four properties of its response schema.
  (Its TypeScript type \<open>Omit<AnalysisResult, 'id' | 'timestamp'>\<close> also lists \<open>original\<close>,
  which the schema does not declare and which \<open>handleAnalyze\<close> overwrites.)
  \<open>interface AnalysisResult\<close> extends it with \<open>id\<close>, \<open>timestamp\<close> and \<open>original\<close>.
\<close>

record Payload =
  translation :: string
  language :: string
  grammarPoints :: "GrammarPoint list"
  vocabulary :: "VocabularyItem list"

record AnalysisResult = Payload +
  ident :: string
  timestamp :: int
  original :: string

subsection \<open>Untyped values\<close>

text \<open>
  \<open>JSON.parse\<close> returns \<open>any\<close>: a value the TypeScript types do not constrain. Such values
  are JSON trees. The properties of an object are kept in the order of the text; a
  property that occurs twice has the value of its last occurrence, as in JavaScript.
\<close>

datatype json =
  JNull
  | JBool bool
  | JNum int
  | JStr string
  | JArr "json list"
  | JObj "(string \<times> json) list"

definition getProp :: "(string \<times> json) list \<Rightarrow> string \<Rightarrow> json option" where
  "getProp kvs k = map_of (rev kvs) k"

fun asString :: "json \<Rightarrow> string option" where
  "asString (JStr s) = Some s"
| "asString _ = None"

fun asNumber :: "json \<Rightarrow> int option" where
  "asNumber (JNum n) = Some n"
| "asNumber _ = None"

fun asArray :: "(json \<Rightarrow> 'a option) \<Rightarrow> json \<Rightarrow> 'a list option" where
  "asArray f (JArr js) = those (map f js)"
| "asArray f _ = None"

text \<open>When a JSON tree is a value of the declared TypeScript type, and which one.\<close>

fun asGrammarPoint :: "json \<Rightarrow> GrammarPoint option" where
  "asGrammarPoint (JObj kvs) = do {
     p \<leftarrow> getProp kvs ''pattern'' \<bind> asString;
     e \<leftarrow> getProp kvs ''explanation'' \<bind> asString;
     Some \<lparr>pattern = p, explanation = e\<rparr> }"
| "asGrammarPoint _ = None"

fun asVocabularyItem :: "json \<Rightarrow> VocabularyItem option" where
  "asVocabularyItem (JObj kvs) = do {
     w \<leftarrow> getProp kvs ''word'' \<bind> asString;
     r \<leftarrow> getProp kvs ''reading'' \<bind> asString;
     m \<leftarrow> getProp kvs ''meaning'' \<bind> asString;
     p \<leftarrow> getProp kvs ''partOfSpeech'' \<bind> asString;
     Some \<lparr>word = w, reading = r, meaning = m, partOfSpeech = p\<rparr> }"
| "asVocabularyItem _ = None"

fun asPayload :: "json \<Rightarrow> Payload option" where
  "asPayload (JObj kvs) = do {
     l \<leftarrow> getProp kvs ''language'' \<bind> asString;
     t \<leftarrow> getProp kvs ''translation'' \<bind> asString;
     g \<leftarrow> getProp kvs ''grammarPoints'' \<bind> asArray asGrammarPoint;
     v \<leftarrow> getProp kvs ''vocabulary'' \<bind> asArray asVocabularyItem;
     Some \<lparr>translation = t, language = l, grammarPoints = g, vocabulary = v\<rparr> }"
| "asPayload _ = None"

fun asAnalysisResult :: "json \<Rightarrow> AnalysisResult option" where
  "asAnalysisResult (JObj kvs) = do {
     p \<leftarrow> asPayload (JObj kvs);
     i \<leftarrow> getProp kvs ''id'' \<bind> asString;
     ts \<leftarrow> getProp kvs ''timestamp'' \<bind> asNumber;
     orig \<leftarrow> getProp kvs ''original'' \<bind> asString;
     Some \<lparr>translation = translation p, language = Payload.language p,
       grammarPoints = grammarPoints p, vocabulary = vocabulary p,
       ident = i, timestamp = ts, original = orig\<rparr> }"
| "asAnalysisResult _ = None"

definition asHistory :: "json \<Rightarrow> AnalysisResult list option" where
  "asHistory = asArray asAnalysisResult"

text \<open>
  The result of a handler: the new state, or \<open>Untyped j\<close> when the unvalidated value \<open>j\<close>
  of \<open>JSON.parse\<close> that the handler stores is not of the declared type (the source stores
  it all the same; the typed model ends there).
\<close>

datatype 'a run = Typed 'a | Untyped json

section \<open>API service\<close>

datatype error = ApiKeyNotFound | GenerateFailed | NoResponse | JsonSyntaxError

text \<open>
  What is sent to \<open>ai.models.generateContent\<close>: the prompt of \<open>analyzeSentence\<close> is built
  from the sentence, that of \<open>askTutor\<close> from the question and the optional context.
\<close>

datatype request = AnalyzeRequest string | TutorRequest string "string option"

text \<open>The call is rejected, or resolves to a response whose \<open>text\<close> may be undefined.\<close>

datatype response = Rejected | Response "string option"

text \<open>
  The environment: \<open>process.env.API_KEY\<close>, the model service, and the builtins
  \<open>JSON.parse\<close> (\<open>None\<close> when it throws) and \<open>JSON.stringify\<close>.
\<close>

record Env =
  API_KEY :: "string option"
  generateContent :: "request \<Rightarrow> response"
  JSON_parse :: "string \<Rightarrow> json option"
  JSON_stringify :: "json \<Rightarrow> string"

text \<open>\<open>!x\<close> for \<open>x: string | undefined\<close>.\<close>

fun falsy :: "string option \<Rightarrow> bool" where
  "falsy None = True"
| "falsy (Some s) = (s = [])"

definition getAI :: "Env \<Rightarrow> error + unit" where
  "getAI env = (if falsy (API_KEY env) then Inl ApiKeyNotFound else Inr ())"

definition analyzeSentence :: "Env \<Rightarrow> string \<Rightarrow> error + json" where
  "analyzeSentence env sentence =
     (case getAI env of
        Inl e \<Rightarrow> Inl e
      | Inr _ \<Rightarrow>
         (case generateContent env (AnalyzeRequest sentence) of
            Rejected \<Rightarrow> Inl GenerateFailed
          | Response text \<Rightarrow>
              (case text of
                 None \<Rightarrow> Inl NoResponse
               | Some t \<Rightarrow>
                   if t = [] then Inl NoResponse
                   else (case JSON_parse env t of
                           None \<Rightarrow> Inl JsonSyntaxError
                         | Some j \<Rightarrow> Inr j))))"

text \<open>\<open>a || b\<close> for \<open>a: string | undefined\<close>.\<close>

definition orElse :: "string option \<Rightarrow> string \<Rightarrow> string" where
  "orElse a b = (case a of None \<Rightarrow> b | Some t \<Rightarrow> if t = [] then b else t)"

definition askTutor :: "Env \<Rightarrow> string \<Rightarrow> string option \<Rightarrow> error + string" where
  "askTutor env q context =
     (case getAI env of
        Inl e \<Rightarrow> Inl e
      | Inr _ \<Rightarrow>
         (case generateContent env (TutorRequest q context) of
            Rejected \<Rightarrow> Inl GenerateFailed
          | Response text \<Rightarrow> Inr (orElse text ''I couldn't generate an answer.'')))"

section \<open>Decimal numerals\<close>

text \<open>
  \<open>Number.prototype.toString\<close> on an integer: its decimal digits, with a sign. (This is
  what JavaScript prints for an integer below \<open>10^21\<close> in magnitude, which every reading
  of \<open>Date.now()\<close> is.) \<open>digit_char\<close> is applied to numbers below ten only.
\<close>

definition digit_char :: "nat \<Rightarrow> char" where
  "digit_char d = ''0123456789'' ! d"

fun digits :: "nat \<Rightarrow> string" where
  "digits n = (if n < 10 then [digit_char n] else digits (n div 10) @ [digit_char (n mod 10)])"

declare digits.simps [simp del]

definition toString :: "int \<Rightarrow> string" where
  "toString i = (if i < 0 then CHR ''-'' # digits (nat (- i)) else digits (nat i))"

section \<open>The App component\<close>

datatype logged = LoggedError error | FailedToParseHistory

record AppState =
  activeTab :: string
  isAnalyzing :: bool
  history :: "AnalysisResult list"
  qaResult :: "QaResult option"
  console :: "logged list"
  alerts :: "string list"

definition initialState :: AppState where
  "initialState = \<lparr>activeTab = ''analyze'', isAnalyzing = False, history = [],
     qaResult = None, console = [], alerts = []\<rparr>"

text \<open>
  \<open>fullResult\<close> of \<open>handleAnalyze\<close>: the spread of the payload, then \<open>id\<close>, \<open>timestamp\<close>
  and \<open>original\<close>. \<open>now1\<close> and \<open>now2\<close> are the two readings of \<open>Date.now()\<close>.
\<close>

definition fullResult :: "Payload \<Rightarrow> string \<Rightarrow> int \<Rightarrow> int \<Rightarrow> AnalysisResult" where
  "fullResult result text now1 now2 =
     \<lparr>translation = translation result, language = Payload.language result,
      grammarPoints = grammarPoints result, vocabulary = vocabulary result,
      ident = toString now1, timestamp = now2, original = text\<rparr>"

text \<open>
  \<open>handleAnalyze\<close> is asynchronous. \<open>handleAnalyze_begin\<close> is what runs before the
  \<open>await\<close>; \<open>handleAnalyze_settle\<close> is what runs when the call has settled, on the state of
  that moment (\<open>setHistory\<close> is given a function of the previous history).
  \<open>handleAnalyze\<close> is the run with no other event in between.
\<close>

definition handleAnalyze_begin :: "AppState \<Rightarrow> AppState" where
  "handleAnalyze_begin s = s\<lparr>isAnalyzing := True\<rparr>"

definition handleAnalyze_settle ::
  "Env \<Rightarrow> string \<Rightarrow> int \<Rightarrow> int \<Rightarrow> AppState \<Rightarrow> AppState run" where
  "handleAnalyze_settle env text now1 now2 s =
     (case analyzeSentence env text of
        Inr j \<Rightarrow>
          (case asPayload j of
             Some result \<Rightarrow>
               Typed (s\<lparr>history := fullResult result text now1 now2 # history s,
                        isAnalyzing := False\<rparr>)
           | None \<Rightarrow> Untyped j)
      | Inl e \<Rightarrow>
          Typed (s\<lparr>console := console s @ [LoggedError e],
                   alerts := alerts s @
                     [''Sorry, I couldn't analyze that sentence. Please check your API key or internet connection.''],
                   isAnalyzing := False\<rparr>))"

definition handleAnalyze :: "Env \<Rightarrow> AppState \<Rightarrow> string \<Rightarrow> int \<Rightarrow> int \<Rightarrow> AppState run" where
  "handleAnalyze env s text now1 now2 =
     handleAnalyze_settle env text now1 now2 (handleAnalyze_begin s)"

text \<open>
  \<open>handleAskTutor\<close>: the context is read from the history of the render that made the
  call; \<open>setQaResult\<close> is given a value.
\<close>

definition tutorContext :: "AppState \<Rightarrow> string option" where
  "tutorContext s = (case history s of [] \<Rightarrow> None | r # _ \<Rightarrow> Some (original r))"

definition handleAskTutor_settle ::
  "Env \<Rightarrow> string \<Rightarrow> string option \<Rightarrow> int \<Rightarrow> int \<Rightarrow> AppState \<Rightarrow> AppState" where
  "handleAskTutor_settle env q context now1 now2 s =
     (case askTutor env q context of
        Inr a \<Rightarrow>
          s\<lparr>qaResult := Some \<lparr>QaResult.ident = toString now1, QaResult.timestamp = now2,
                               question = q,
                               answer = a, relatedSentence = context\<rparr>,
            isAnalyzing := False\<rparr>
      | Inl e \<Rightarrow>
          s\<lparr>console := console s @ [LoggedError e],
            alerts := alerts s @ [''Sorry, I couldn't get an answer right now.''],
            isAnalyzing := False\<rparr>)"

definition handleAskTutor :: "Env \<Rightarrow> AppState \<Rightarrow> string \<Rightarrow> int \<Rightarrow> int \<Rightarrow> AppState" where
  "handleAskTutor env s q now1 now2 =
     handleAskTutor_settle env q (tutorContext s) now1 now2 (s\<lparr>isAnalyzing := True\<rparr>)"

text \<open>\<open>handleDelete\<close>; \<open>confirmed\<close> is the user's answer to \<open>confirm(...)\<close>.\<close>

definition handleDelete :: "AppState \<Rightarrow> string \<Rightarrow> bool \<Rightarrow> AppState" where
  "handleDelete s i confirmed =
     (if confirmed then s\<lparr>history := filter (\<lambda>item. ident item \<noteq> i) (history s)\<rparr> else s)"

section \<open>Persistence\<close>

text \<open>
  The JavaScript value of a history of the declared type, as \<open>JSON.stringify\<close> walks it.
  \<open>handleAnalyze\<close> builds a record from the spread of the payload followed by \<open>id\<close>,
  \<open>timestamp\<close> and \<open>original\<close>; the payload's properties are listed in the order of
  the response schema.
\<close>

definition grammarPointValue :: "GrammarPoint \<Rightarrow> json" where
  "grammarPointValue g =
     JObj [(''pattern'', JStr (pattern g)), (''explanation'', JStr (explanation g))]"

definition vocabularyItemValue :: "VocabularyItem \<Rightarrow> json" where
  "vocabularyItemValue v =
     JObj [(''word'', JStr (word v)), (''reading'', JStr (reading v)),
           (''meaning'', JStr (meaning v)), (''partOfSpeech'', JStr (partOfSpeech v))]"

definition analysisResultValue :: "AnalysisResult \<Rightarrow> json" where
  "analysisResultValue r =
     JObj [(''language'', JStr (Payload.language r)),
           (''translation'', JStr (translation r)),
           (''grammarPoints'', JArr (map grammarPointValue (grammarPoints r))),
           (''vocabulary'', JArr (map vocabularyItemValue (vocabulary r))),
           (''id'', JStr (ident r)),
           (''timestamp'', JNum (timestamp r)),
           (''original'', JStr (original r))]"

definition historyValue :: "AnalysisResult list \<Rightarrow> json" where
  "historyValue h = JArr (map analysisResultValue h)"

text \<open>\<open>localStorage\<close>: a map from keys to strings.\<close>

type_synonym storage = "string \<rightharpoonup> string"

text \<open>
  The first effect of \<open>App\<close>: \<open>if (saved)\<close> skips an absent or empty item;
  \<open>setHistory(JSON.parse(saved))\<close> stores the parsed value without validation, and the
  \<open>catch\<close> only logs.
\<close>

definition loadHistory :: "Env \<Rightarrow> storage \<Rightarrow> AppState \<Rightarrow> AppState run" where
  "loadHistory env localStorage s =
     (case localStorage ''lingolog_history'' of
        None \<Rightarrow> Typed s
      | Some saved \<Rightarrow>
          if saved = [] then Typed s
          else (case JSON_parse env saved of
                  None \<Rightarrow> Typed (s\<lparr>console := console s @ [FailedToParseHistory]\<rparr>)
                | Some j \<Rightarrow>
                    (case asHistory j of
                       Some h \<Rightarrow> Typed (s\<lparr>history := h\<rparr>)
                     | None \<Rightarrow> Untyped j)))"

text \<open>The second effect of \<open>App\<close>, run after every change of \<open>history\<close>.\<close>

definition saveHistory :: "Env \<Rightarrow> storage \<Rightarrow> AppState \<Rightarrow> storage" where
  "saveHistory env localStorage s =
     localStorage(''lingolog_history'' \<mapsto> JSON_stringify env (historyValue (history s)))"

section \<open>DictionaryTab\<close>

text \<open>
  \<open>String.prototype.localeCompare\<close> and \<open>String.prototype.toLowerCase\<close> are builtins
  of the platform; the functions below take them as parameters.
\<close>

definition tagged :: "AnalysisResult \<Rightarrow> VocabularyItem \<Rightarrow> VocabEntry" where
  "tagged item v = \<lparr>word = word v, reading = reading v, meaning = meaning v,
     partOfSpeech = partOfSpeech v, VocabEntry.language = Payload.language item\<rparr>"

definition flatVocab :: "AnalysisResult list \<Rightarrow> VocabEntry list" where
  "flatVocab items = concat (map (\<lambda>item. map (tagged item) (vocabulary item)) items)"

text \<open>The callback of \<open>reduce\<close>.\<close>

definition dedupeStep :: "VocabEntry list \<Rightarrow> VocabEntry \<Rightarrow> VocabEntry list" where
  "dedupeStep acc cur =
     (if \<not> list_ex (\<lambda>v. word v = word cur) acc then acc @ [cur] else acc)"

text \<open>
  \<open>Array.prototype.sort\<close> with a comparison function is stable; for a consistent
  comparison function its result is that of a stable insertion sort.
\<close>

fun insertBy :: "('a \<Rightarrow> 'a \<Rightarrow> int) \<Rightarrow> 'a \<Rightarrow> 'a list \<Rightarrow> 'a list" where
  "insertBy cmp x [] = [x]"
| "insertBy cmp x (y # ys) = (if cmp x y \<le> 0 then x # y # ys else y # insertBy cmp x ys)"

definition sortBy :: "('a \<Rightarrow> 'a \<Rightarrow> int) \<Rightarrow> 'a list \<Rightarrow> 'a list" where
  "sortBy cmp xs = foldr (insertBy cmp) xs []"

definition consistentComparator :: "('a \<Rightarrow> 'a \<Rightarrow> int) \<Rightarrow> bool" where
  "consistentComparator cmp \<longleftrightarrow>
     (\<forall>a b. cmp a b \<le> 0 \<or> cmp b a \<le> 0) \<and>
     (\<forall>a b c. cmp a b \<le> 0 \<longrightarrow> cmp b c \<le> 0 \<longrightarrow> cmp a c \<le> 0)"

definition allVocab ::
  "(string \<Rightarrow> string \<Rightarrow> int) \<Rightarrow> AnalysisResult list \<Rightarrow> VocabEntry list" where
  "allVocab localeCompare items =
     sortBy (\<lambda>a b. localeCompare (word a) (word b)) (foldl dedupeStep [] (flatVocab items))"

text \<open>\<open>s.includes(t)\<close>.\<close>

definition includes_str :: "string \<Rightarrow> string \<Rightarrow> bool" where
  "includes_str s t = sublist t s"

definition filteredVocab ::
  "(string \<Rightarrow> string) \<Rightarrow> string \<Rightarrow> VocabEntry list \<Rightarrow> VocabEntry list" where
  "filteredVocab toLowerCase searchTerm vocab =
     filter (\<lambda>v. includes_str (toLowerCase (word v)) (toLowerCase searchTerm)
                \<or> includes_str (toLowerCase (meaning v)) (toLowerCase searchTerm)
                \<or> includes_str (toLowerCase (reading v)) (toLowerCase searchTerm)) vocab"

section \<open>JSON text\<close>

text \<open>
  A model of the builtins on the JSON texts this program writes and reads. Numbers are
  integers, as \<open>Date.now()\<close> yields them.
\<close>

subsection \<open>JSON.stringify\<close>

text \<open>
  Without indentation: quotation mark, reverse solidus and the control characters are
  escaped in strings; every other character is written as it is.
\<close>


definition hexDigit :: "nat \<Rightarrow> char" where
  "hexDigit d = ''0123456789abcdef'' ! d"

definition quoteChar :: "char \<Rightarrow> string" where
  "quoteChar c =
     (if c = CHR 0x22 then [CHR 0x5C, CHR 0x22]
      else if c = CHR 0x5C then [CHR 0x5C, CHR 0x5C]
      else if c = CHR 0x08 then [CHR 0x5C, CHR ''b'']
      else if c = CHR 0x0C then [CHR 0x5C, CHR ''f'']
      else if c = CHR 0x0A then [CHR 0x5C, CHR ''n'']
      else if c = CHR 0x0D then [CHR 0x5C, CHR ''r'']
      else if c = CHR 0x09 then [CHR 0x5C, CHR ''t'']
      else if (of_char c :: nat) < 32
        then [CHR 0x5C, CHR ''u'', CHR ''0'', CHR ''0'',
              hexDigit (of_char c div 16), hexDigit (of_char c mod 16)]
      else [c])"

definition quote :: "string \<Rightarrow> string" where
  "quote s = CHR 0x22 # concat (map quoteChar s) @ [CHR 0x22]"

fun commaSep :: "string list \<Rightarrow> string" where
  "commaSep [] = []"
| "commaSep [x] = x"
| "commaSep (x # y # ys) = x @ CHR '','' # commaSep (y # ys)"

fun stringifyJSON :: "json \<Rightarrow> string" where
  "stringifyJSON JNull = ''null''"
| "stringifyJSON (JBool b) = (if b then ''true'' else ''false'')"
| "stringifyJSON (JNum n) = toString n"
| "stringifyJSON (JStr s) = quote s"
| "stringifyJSON (JArr js) = CHR ''['' # commaSep (map stringifyJSON js) @ '']''"
| "stringifyJSON (JObj kvs) =
     CHR ''{'' # commaSep (map (\<lambda>(k, v). quote k @ CHR '':'' # stringifyJSON v) kvs) @ ''}''"

subsection \<open>JSON.parse\<close>

text \<open>
  A recursive-descent parser of the JSON grammar, with whitespace between tokens.
  In this model of values it gives \<open>None\<close> also for a number with a fraction or an
  exponent and for a unicode escape above \<open>00FF\<close>, which have no counterpart in
  \<^typ>\<open>json\<close>. The fuel of \<open>parseValue\<close> bounds the nesting and the number of elements;
  \<open>parseJSON\<close> supplies more than the length of the text.
\<close>

definition digit_val :: "char \<Rightarrow> nat" where
  "digit_val c = of_char c - 48"

definition is_digit :: "char \<Rightarrow> bool" where
  "is_digit c = (48 \<le> (of_char c :: nat) \<and> (of_char c :: nat) \<le> 57)"

definition natOfDigits :: "string \<Rightarrow> nat" where
  "natOfDigits cs = foldl (\<lambda>a c. 10 * a + digit_val c) 0 cs"



definition isWs :: "char \<Rightarrow> bool" where
  "isWs c = (c = CHR 0x20 \<or> c = CHR 0x09 \<or> c = CHR 0x0A \<or> c = CHR 0x0D)"

definition skipWs :: "string \<Rightarrow> string" where
  "skipWs cs = dropWhile isWs cs"

definition hexVal :: "char \<Rightarrow> nat option" where
  "hexVal c =
     (let n = (of_char c :: nat) in
      if 48 \<le> n \<and> n \<le> 57 then Some (n - 48)
      else if 97 \<le> n \<and> n \<le> 102 then Some (n - 87)
      else if 65 \<le> n \<and> n \<le> 70 then Some (n - 55)
      else None)"

definition unescape :: "char \<Rightarrow> char option" where
  "unescape e =
     (if e = CHR 0x22 then Some (CHR 0x22)
      else if e = CHR 0x5C then Some (CHR 0x5C)
      else if e = CHR ''/'' then Some (CHR ''/'')
      else if e = CHR ''b'' then Some (CHR 0x08)
      else if e = CHR ''f'' then Some (CHR 0x0C)
      else if e = CHR ''n'' then Some (CHR 0x0A)
      else if e = CHR ''r'' then Some (CHR 0x0D)
      else if e = CHR ''t'' then Some (CHR 0x09)
      else None)"

definition consChar :: "char \<Rightarrow> (string \<times> string) option \<Rightarrow> (string \<times> string) option" where
  "consChar c r = map_option (\<lambda>(s, rest). (c # s, rest)) r"

fun parseChars :: "string \<Rightarrow> (string \<times> string) option" where
  "parseChars [] = None"
| "parseChars (c # cs) =
     (if c = CHR 0x22 then Some ([], cs)
      else if c = CHR 0x5C then
        (case cs of
           [] \<Rightarrow> None
         | e # cs' \<Rightarrow>
             if e = CHR ''u'' then
               (case cs' of
                  h1 # h2 # h3 # h4 # rest \<Rightarrow>
                    (case (hexVal h1, hexVal h2, hexVal h3, hexVal h4) of
                       (Some a, Some b, Some c', Some d) \<Rightarrow>
                         if a = 0 \<and> b = 0
                         then consChar (char_of (16 * c' + d)) (parseChars rest)
                         else None
                     | _ \<Rightarrow> None)
                | _ \<Rightarrow> None)
             else (case unescape e of
                     None \<Rightarrow> None
                   | Some ch \<Rightarrow> consChar ch (parseChars cs')))
      else if (of_char c :: nat) < 32 then None
      else consChar c (parseChars cs))"

definition parseNumber :: "string \<Rightarrow> (json \<times> string) option" where
  "parseNumber cs =
     (let neg = (cs \<noteq> [] \<and> hd cs = CHR ''-'');
          ds = (if neg then tl cs else cs);
          intPart = takeWhile is_digit ds;
          rest = dropWhile is_digit ds
      in if intPart = [] then None
         else if hd intPart = CHR ''0'' \<and> tl intPart \<noteq> [] then None
         else if rest \<noteq> [] \<and> hd rest \<in> set ''.eE'' then None
         else Some (JNum (if neg then - int (natOfDigits intPart) else int (natOfDigits intPart)), rest))"

definition parseLiteral :: "string \<Rightarrow> json \<Rightarrow> string \<Rightarrow> (json \<times> string) option" where
  "parseLiteral lit v cs =
     (if take (length lit) cs = lit then Some (v, drop (length lit) cs) else None)"

definition startsWith :: "char \<Rightarrow> string \<Rightarrow> bool" where
  "startsWith c cs = (cs \<noteq> [] \<and> hd cs = c)"

fun parseValue :: "nat \<Rightarrow> string \<Rightarrow> (json \<times> string) option"
  and parseElems :: "nat \<Rightarrow> string \<Rightarrow> (json list \<times> string) option"
  and parseMembers :: "nat \<Rightarrow> string \<Rightarrow> ((string \<times> json) list \<times> string) option"
where
  "parseValue 0 cs = None"
| "parseValue (Suc n) cs =
     (let ts = skipWs cs in
      if startsWith (CHR 0x22) ts then map_option (\<lambda>(s, r). (JStr s, r)) (parseChars (tl ts))
      else if startsWith (CHR ''['') ts then
        (if startsWith (CHR '']'') (skipWs (tl ts)) then Some (JArr [], tl (skipWs (tl ts)))
         else map_option (\<lambda>(js, r). (JArr js, r)) (parseElems n (tl ts)))
      else if startsWith (CHR ''{'') ts then
        (if startsWith (CHR ''}'') (skipWs (tl ts)) then Some (JObj [], tl (skipWs (tl ts)))
         else map_option (\<lambda>(kvs, r). (JObj kvs, r)) (parseMembers n (tl ts)))
      else if startsWith (CHR ''t'') ts then parseLiteral ''true'' (JBool True) ts
      else if startsWith (CHR ''f'') ts then parseLiteral ''false'' (JBool False) ts
      else if startsWith (CHR ''n'') ts then parseLiteral ''null'' JNull ts
      else parseNumber ts)"
| "parseElems 0 cs = None"
| "parseElems (Suc n) cs =
     (case parseValue n cs of
        None \<Rightarrow> None
      | Some (v, r) \<Rightarrow>
          let ts = skipWs r in
          if startsWith (CHR '','') ts then map_option (\<lambda>(vs, r'). (v # vs, r')) (parseElems n (tl ts))
          else if startsWith (CHR '']'') ts then Some ([v], tl ts)
          else None)"
| "parseMembers 0 cs = None"
| "parseMembers (Suc n) cs =
     (let ts = skipWs cs in
      if \<not> startsWith (CHR 0x22) ts then None
      else
        (case parseChars (tl ts) of
           None \<Rightarrow> None
         | Some (k, r) \<Rightarrow>
             let ts' = skipWs r in
             if \<not> startsWith (CHR '':'') ts' then None
             else
               (case parseValue n (tl ts') of
                  None \<Rightarrow> None
                | Some (v, r') \<Rightarrow>
                    let ts'' = skipWs r' in
                    if startsWith (CHR '','') ts'' then
                      map_option (\<lambda>(kvs, r''). ((k, v) # kvs, r'')) (parseMembers n (tl ts''))
                    else if startsWith (CHR ''}'') ts'' then Some ([(k, v)], tl ts'')
                    else None)))"

definition parseJSON :: "string \<Rightarrow> json option" where
  "parseJSON text =
     (case parseValue (Suc (length text)) text of
        None \<Rightarrow> None
      | Some (v, rest) \<Rightarrow> if skipWs rest = [] then Some v else None)"



subsection \<open>Notions used in the proofs\<close>

text \<open>The fuel \<open>parseValue\<close> needs to read back a value written by \<open>stringifyJSON\<close>.\<close>

fun needV :: "json \<Rightarrow> nat" where
  "needV (JArr js) = Suc (foldr (\<lambda>j m. Suc (max (needV j) m)) js 0)"
| "needV (JObj kvs) = Suc (foldr (\<lambda>(k, j) m. Suc (max (needV j) m)) kvs 0)"
| "needV _ = 1"

definition needL :: "json list \<Rightarrow> nat" where
  "needL js = foldr (\<lambda>j m. Suc (max (needV j) m)) js 0"

definition needM :: "(string \<times> json) list \<Rightarrow> nat" where
  "needM kvs = foldr (\<lambda>(k, j) m. Suc (max (needV j) m)) kvs 0"

text \<open>What may follow a value in a JSON text: nothing, or a separator.\<close>

definition okRest :: "string \<Rightarrow> bool" where
  "okRest rest = (rest = [] \<or> hd rest \<in> set '',]}'')"

text \<open>The characters a written value starts with.\<close>

definition valueStart :: "char \<Rightarrow> bool" where
  "valueStart c = (c \<in> set ''\"[{tfn-'' \<or> is_digit c)"

text \<open>One property of an object, as written.\<close>

definition member :: "string \<times> json \<Rightarrow> string" where
  "member kv = quote (fst kv) @ CHR '':'' # stringifyJSON (snd kv)"

section \<open>Sample environments\<close>

text \<open>
  Concrete instances of the platform builtins and of the model service, on which the
  definitions above are evaluated.
\<close>

definition asciiLower :: "string \<Rightarrow> string" where
  "asciiLower s =
     map (\<lambda>c. if 65 \<le> (of_char c :: nat) \<and> (of_char c :: nat) \<le> 90
               then char_of ((of_char c :: nat) + 32) else c) s"

fun codeUnitCompare :: "string \<Rightarrow> string \<Rightarrow> int" where
  "codeUnitCompare [] [] = 0"
| "codeUnitCompare [] (y # ys) = - 1"
| "codeUnitCompare (x # xs) [] = 1"
| "codeUnitCompare (x # xs) (y # ys) =
     (if (of_char x :: nat) < of_char y then - 1
      else if (of_char y :: nat) < of_char x then 1
      else codeUnitCompare xs ys)"

definition sampleResponse :: string where
  \<open>sampleResponse = ''{"language":"Japanese","translation":"The cat is sleeping","grammarPoints":[{"pattern":"wa","explanation":"topic marker"}],"vocabulary":[{"word":"neko","reading":"neko","meaning":"cat","partOfSpeech":"noun"}]}''\<close>

definition samplePayload :: Payload where
  "samplePayload =
     \<lparr>translation = ''The cat is sleeping'', language = ''Japanese'',
      grammarPoints = [\<lparr>pattern = ''wa'', explanation = ''topic marker''\<rparr>],
      vocabulary = [\<lparr>word = ''neko'', reading = ''neko'', meaning = ''cat'',
                     partOfSpeech = ''noun''\<rparr>]\<rparr>"

definition sampleService :: "request \<Rightarrow> response" where
  "sampleService r = Response (Some sampleResponse)"

definition offlineService :: "request \<Rightarrow> response" where
  "offlineService r = Rejected"

definition silentService :: "request \<Rightarrow> response" where
  "silentService r = Response None"

definition sampleEnv :: Env where
  "sampleEnv = \<lparr>API_KEY = Some ''key'', generateContent = sampleService,
     JSON_parse = parseJSON, JSON_stringify = stringifyJSON\<rparr>"

definition offlineEnv :: Env where
  "offlineEnv = \<lparr>API_KEY = Some ''key'', generateContent = offlineService,
     JSON_parse = parseJSON, JSON_stringify = stringifyJSON\<rparr>"

definition silentEnv :: Env where
  "silentEnv = \<lparr>API_KEY = Some ''key'', generateContent = silentService,
     JSON_parse = parseJSON, JSON_stringify = stringifyJSON\<rparr>"

text \<open>Two analyses that settle at the same reading of the clock.\<close>

definition onceAnalyzed :: AppState where
  "onceAnalyzed = initialState\<lparr>history :=
     [fullResult samplePayload ''neko'' 1700000000000 1700000000000]\<rparr>"

definition twiceAnalyzed :: AppState where
  "twiceAnalyzed = initialState\<lparr>history :=
     [fullResult samplePayload ''inu'' 1700000000000 1700000000000,
      fullResult samplePayload ''neko'' 1700000000000 1700000000000]\<rparr>"

definition corruptStorage :: storage where
  \<open>corruptStorage = [''lingolog_history'' \<mapsto> ''[{"id":"17'']\<close>

text \<open>A snapshot that is JSON, but not a list of records.\<close>

definition nullStorage :: storage where
  "nullStorage = [''lingolog_history'' \<mapsto> ''null'']"

text \<open>A history of two records that share a word, and a state that shows an answer.\<close>

definition nekoItem :: VocabularyItem where
  "nekoItem = \<lparr>word = ''neko'', reading = ''neko'', meaning = ''cat'', partOfSpeech = ''noun''\<rparr>"

definition newerRecord :: AnalysisResult where
  "newerRecord =
     \<lparr>translation = ''The cat sleeps'', language = ''Japanese'', grammarPoints = [],
      vocabulary = [nekoItem],
      ident = ''1700000000002'', timestamp = 1700000000002, original = ''neko wa neru''\<rparr>"

definition olderRecord :: AnalysisResult where
  "olderRecord =
     \<lparr>translation = ''A dog and a cat'', language = ''Romaji'', grammarPoints = [],
      vocabulary = [\<lparr>word = ''neko'', reading = ''NEKO'', meaning = ''a cat'', partOfSpeech = ''n''\<rparr>,
                    \<lparr>word = ''inu'', reading = ''inu'', meaning = ''dog'', partOfSpeech = ''noun''\<rparr>],
      ident = ''1700000000001'', timestamp = 1700000000001, original = ''inu to neko''\<rparr>"

definition answeredState :: AppState where
  "answeredState = initialState\<lparr>history := [newerRecord],
     qaResult := Some \<lparr>QaResult.ident = ''1700000000003'', QaResult.timestamp = 1700000000003,
       question = ''what is wa?'', answer = ''a topic marker'',
       relatedSentence = Some ''neko wa neru''\<rparr>\<rparr>"

section \<open>Properties of decimal numerals\<close>

lemma below_ten: "d < 10 \<Longrightarrow> d \<in> {0, 1, 2, 3, 4, 5, 6, 7, 8, 9::nat}"
  by auto

lemma digit_val_digit_char: "d < 10 \<Longrightarrow> digit_val (digit_char d) = d"
  using below_ten[of d] by (auto simp: digit_val_def digit_char_def)

lemma is_digit_digit_char: "d < 10 \<Longrightarrow> is_digit (digit_char d)"
  using below_ten[of d] by (auto simp: is_digit_def digit_char_def)

lemma digits_not_Nil: "digits n \<noteq> []"
  by (subst digits.simps) simp

lemma digits_all_digit: "\<forall>c \<in> set (digits n). is_digit c"
proof (induction n rule: digits.induct)
  case (1 n)
  show ?case
    by (subst digits.simps) (use 1 in \<open>auto simp: is_digit_digit_char\<close>)
qed

lemma natOfDigits_digits: "natOfDigits (digits n) = n"
proof (induction n rule: digits.induct)
  case (1 n)
  show ?case
  proof (cases "n < 10")
    case True
    then show ?thesis
      by (subst digits.simps) (simp add: natOfDigits_def digit_val_digit_char)
  next
    case False
    with 1 have ih: "natOfDigits (digits (n div 10)) = n div 10" by simp
    have "natOfDigits (digits n) = 10 * natOfDigits (digits (n div 10)) + digit_val (digit_char (n mod 10))"
      using False by (subst digits.simps) (simp add: natOfDigits_def)
    also have "\<dots> = 10 * (n div 10) + n mod 10"
      by (simp add: ih digit_val_digit_char)
    finally show ?thesis by simp
  qed
qed

lemma hd_digits_digit: "is_digit (hd (digits n))"
  using digits_all_digit[of n] digits_not_Nil[of n] by (cases "digits n") auto

lemma digit_char_zero: "d < 10 \<Longrightarrow> digit_char d = CHR ''0'' \<Longrightarrow> d = 0"
  using below_ten[of d] by (auto simp: digit_char_def)

lemma digits_leading_zero: "hd (digits n) = CHR ''0'' \<Longrightarrow> digits n = ''0''"
proof (induction n rule: digits.induct)
  case (1 n)
  show ?case
  proof (cases "n < 10")
    case True
    then have d: "digits n = [digit_char n]" by (subst digits.simps) simp
    with "1.prems" True have "n = 0" by (simp add: digit_char_zero)
    then show ?thesis using d by (simp add: digit_char_def)
  next
    case False
    then have d: "digits n = digits (n div 10) @ [digit_char (n mod 10)]"
      by (subst digits.simps) simp
    then have "hd (digits (n div 10)) = CHR ''0''"
      using "1.prems" digits_not_Nil[of "n div 10"] by simp
    with 1 False have "digits (n div 10) = ''0''" by simp
    then have "natOfDigits (digits (n div 10)) = 0" by (simp add: natOfDigits_def digit_val_def)
    then have "n div 10 = 0" by (simp add: natOfDigits_digits)
    with False show ?thesis by simp
  qed
qed

lemma okRest_no_digit: "okRest rest \<Longrightarrow> rest = [] \<or> \<not> is_digit (hd rest)"
  by (auto simp: okRest_def is_digit_def)

lemma takeWhile_digits:
  "rest = [] \<or> \<not> is_digit (hd rest) \<Longrightarrow> takeWhile is_digit (digits m @ rest) = digits m"
  using digits_all_digit[of m] by (cases rest) (auto simp: takeWhile_append2)

lemma dropWhile_digits:
  "rest = [] \<or> \<not> is_digit (hd rest) \<Longrightarrow> dropWhile is_digit (digits m @ rest) = rest"
  using digits_all_digit[of m] by (cases rest) (auto simp: dropWhile_append2)

lemma parseNumber_digits:
  assumes "okRest rest"
  shows "parseNumber (digits m @ rest) = Some (JNum (int m), rest)"
proof -
  have nd: "rest = [] \<or> \<not> is_digit (hd rest)" using assms by (rule okRest_no_digit)
  have h: "hd (digits m @ rest) = hd (digits m)" using digits_not_Nil by simp
  have nm: "hd (digits m) \<noteq> CHR ''-''" using hd_digits_digit[of m] by (auto simp: is_digit_def)
  have lz: "\<not> (hd (digits m) = CHR ''0'' \<and> tl (digits m) \<noteq> [])"
    using digits_leading_zero[of m] by auto
  have r: "\<not> (rest \<noteq> [] \<and> hd rest \<in> set ''.eE'')" using assms by (auto simp: okRest_def)
  show ?thesis
    unfolding parseNumber_def Let_def
    using nd h nm lz r digits_not_Nil[of m]
    by (simp add: takeWhile_digits dropWhile_digits natOfDigits_digits)
qed

lemma parseNumber_minus_digits:
  assumes "okRest rest" and "0 < m"
  shows "parseNumber (CHR ''-'' # digits m @ rest) = Some (JNum (- int m), rest)"
proof -
  have nd: "rest = [] \<or> \<not> is_digit (hd rest)" using assms(1) by (rule okRest_no_digit)
  have lz: "\<not> (hd (digits m) = CHR ''0'' \<and> tl (digits m) \<noteq> [])"
    using digits_leading_zero[of m] by auto
  have r: "\<not> (rest \<noteq> [] \<and> hd rest \<in> set ''.eE'')" using assms by (auto simp: okRest_def)
  show ?thesis
    unfolding parseNumber_def Let_def
    using nd lz r digits_not_Nil[of m]
    by (simp add: takeWhile_digits dropWhile_digits natOfDigits_digits)
qed

lemma parseNumber_toString:
  "okRest rest \<Longrightarrow> parseNumber (toString i @ rest) = Some (JNum i, rest)"
  by (cases "i < 0") (simp_all add: toString_def parseNumber_digits parseNumber_minus_digits)

lemma toString_inj: "(toString a = toString b) = (a = b)"
proof
  assume eq: "toString a = toString b"
  have "parseNumber (toString a @ []) = Some (JNum a, [])"
    by (rule parseNumber_toString) (simp add: okRest_def)
  moreover have "parseNumber (toString b @ []) = Some (JNum b, [])"
    by (rule parseNumber_toString) (simp add: okRest_def)
  ultimately show "a = b" using eq by simp
qed simp

section \<open>Reading back what \<open>stringifyJSON\<close> writes\<close>

lemma below_32: "n < 32 \<Longrightarrow> n div 16 \<in> {0, 1::nat} \<and> n mod 16 < 16"
  by auto

lemma below_16: "d < 16 \<Longrightarrow> d \<in> {0, 1, 2, 3, 4, 5, 6, 7, 8, 9, 10, 11, 12, 13, 14, 15::nat}"
  by simp presburger

lemma hexVal_hexDigit: "d < 16 \<Longrightarrow> hexVal (hexDigit d) = Some d"
  using below_16[of d] by (auto simp: hexVal_def hexDigit_def)

lemma hexVal_zero: "hexVal (CHR ''0'') = Some 0"
  by (simp add: hexVal_def)

lemma char_of_div_mod: "char_of (16 * ((of_char c :: nat) div 16) + (of_char c :: nat) mod 16) = c"
  by simp

lemma parseChars_quoteChar:
  "parseChars (quoteChar c @ cs) = consChar c (parseChars cs)"
proof -
  consider (esc) "c \<in> {CHR 0x22, CHR 0x5C, CHR 0x08, CHR 0x0C, CHR 0x0A, CHR 0x0D, CHR 0x09}"
    | (ctl) "c \<notin> {CHR 0x22, CHR 0x5C, CHR 0x08, CHR 0x0C, CHR 0x0A, CHR 0x0D, CHR 0x09}" "(of_char c :: nat) < 32"
    | (lit) "c \<notin> {CHR 0x22, CHR 0x5C, CHR 0x08, CHR 0x0C, CHR 0x0A, CHR 0x0D, CHR 0x09}" "\<not> (of_char c :: nat) < 32"
    by blast
  then show ?thesis
  proof cases
    case esc
    then show ?thesis by (auto simp: quoteChar_def unescape_def)
  next
    case ctl
    have d: "(of_char c :: nat) div 16 < 16" "(of_char c :: nat) mod 16 < 16"
      using ctl(2) by auto
    have q: "quoteChar c = [CHR 0x5C, CHR ''u'', CHR ''0'', CHR ''0'',
              hexDigit (of_char c div 16), hexDigit (of_char c mod 16)]"
      using ctl by (simp add: quoteChar_def)
    show ?thesis
      unfolding q using d
      by (simp add: hexVal_zero hexVal_hexDigit)
  next
    case lit
    then show ?thesis by (simp add: quoteChar_def)
  qed
qed

lemma parseChars_quoted:
  "parseChars (concat (map quoteChar s) @ CHR 0x22 # rest) = Some (s, rest)"
  by (induction s) (simp_all add: parseChars_quoteChar consChar_def)

lemma parseChars_quote:
  "parseChars (tl (quote s @ rest)) = Some (s, rest)"
  by (simp add: quote_def parseChars_quoted)

lemma toString_not_Nil: "toString i \<noteq> []"
  by (simp add: toString_def digits_not_Nil)

lemma hd_toString: "hd (toString i) = CHR ''-'' \<or> is_digit (hd (toString i))"
  by (simp add: toString_def hd_digits_digit)

lemma stringifyJSON_not_Nil: "stringifyJSON v \<noteq> []"
  by (cases v) (simp_all add: toString_not_Nil quote_def)

lemma hd_stringifyJSON: "valueStart (hd (stringifyJSON v))"
proof (cases v)
  case (JNum i)
  then show ?thesis using hd_toString[of i] by (auto simp: valueStart_def)
qed (simp_all add: valueStart_def quote_def)

lemma valueStart_not_ws: "valueStart c \<Longrightarrow> \<not> isWs c"
  by (auto simp: valueStart_def isWs_def is_digit_def)

lemma skipWs_start: "cs \<noteq> [] \<Longrightarrow> \<not> isWs (hd cs) \<Longrightarrow> skipWs (cs @ rest) = cs @ rest"
  by (cases cs) (simp_all add: skipWs_def)

lemma skipWs_stringifyJSON: "skipWs (stringifyJSON v @ rest) = stringifyJSON v @ rest"
  by (rule skipWs_start[OF stringifyJSON_not_Nil valueStart_not_ws[OF hd_stringifyJSON]])

lemma skipWs_Cons: "\<not> isWs c \<Longrightarrow> skipWs (c # cs) = c # cs"
  by (simp add: skipWs_def)

lemma startsWith_Cons: "startsWith c (d # cs) = (d = c)"
  by (auto simp: startsWith_def)

lemma startsWith_toString:
  "c \<in> set ''\"[{tfn'' \<Longrightarrow> \<not> startsWith c (toString i @ rest)"
  using hd_toString[of i] toString_not_Nil[of i]
  by (auto simp: startsWith_def is_digit_def)

lemma parseValue_leaf:
  "parseValue (Suc n) (stringifyJSON JNull @ rest) = Some (JNull, rest)"
  "parseValue (Suc n) (stringifyJSON (JBool b) @ rest) = Some (JBool b, rest)"
  "parseValue (Suc n) (stringifyJSON (JStr s) @ rest) = Some (JStr s, rest)"
  by (simp_all add: skipWs_Cons isWs_def startsWith_Cons parseLiteral_def quote_def parseChars_quoted)

lemma parseValue_num:
  assumes "okRest rest"
  shows "parseValue (Suc n) (stringifyJSON (JNum i) @ rest) = Some (JNum i, rest)"
proof -
  have "skipWs (toString i @ rest) = toString i @ rest"
    using skipWs_stringifyJSON[of "JNum i"] by simp
  then show ?thesis
    using assms by (simp add: startsWith_toString parseNumber_toString)
qed

lemma startsWith_value:
  "c \<in> set '',]}:'' \<Longrightarrow> \<not> startsWith c (stringifyJSON v @ rest)"
  using hd_stringifyJSON[of v] stringifyJSON_not_Nil[of v]
  by (auto simp: startsWith_def valueStart_def is_digit_def)

lemma parseElems_ok:
  assumes ih: "\<And>j n rest. j \<in> set js \<Longrightarrow> needV j \<le> n \<Longrightarrow> okRest rest \<Longrightarrow>
                 parseValue n (stringifyJSON j @ rest) = Some (j, rest)"
    and "js \<noteq> []" and "needL js \<le> n"
  shows "parseElems n (commaSep (map stringifyJSON js) @ CHR '']'' # rest) = Some (js, rest)"
  using assms
proof (induction js arbitrary: n)
  case Nil
  then show ?case by simp
next
  case (Cons j js)
  from Cons.prems(3) obtain m where n: "n = Suc m" and mj: "needV j \<le> m" and ml: "needL js \<le> m"
    by (cases n) (auto simp: needL_def)
  show ?case
  proof (cases "js = []")
    case True
    have "parseValue m (stringifyJSON j @ CHR '']'' # rest) = Some (j, CHR '']'' # rest)"
      using Cons.prems(1)[of j m "CHR '']'' # rest"] mj by (simp add: okRest_def)
    then show ?thesis using True n
      by (simp add: skipWs_Cons isWs_def startsWith_Cons)
  next
    case False
    let ?tail = "commaSep (map stringifyJSON js) @ CHR '']'' # rest"
    obtain j' js' where js: "js = j' # js'" using False by (cases js) auto
    have v: "parseValue m (stringifyJSON j @ CHR '','' # ?tail) = Some (j, CHR '','' # ?tail)"
      using Cons.prems(1)[of j m "CHR '','' # ?tail"] mj by (simp add: okRest_def)
    have t: "parseElems m ?tail = Some (js, rest)"
    proof (rule Cons.IH)
      show "\<And>j n rest. j \<in> set js \<Longrightarrow> needV j \<le> n \<Longrightarrow> okRest rest \<Longrightarrow>
                 parseValue n (stringifyJSON j @ rest) = Some (j, rest)"
        using Cons.prems(1) by simp
      show "js \<noteq> []" by (rule False)
      show "needL js \<le> m" by (rule ml)
    qed
    have "commaSep (map stringifyJSON (j # js)) = stringifyJSON j @ CHR '','' # commaSep (map stringifyJSON js)"
      using js by simp
    then show ?thesis using n v t
      by (simp add: skipWs_Cons isWs_def startsWith_Cons)
  qed
qed

lemma parseMember_key: "skipWs (member kv @ rest) = member kv @ rest"
  "startsWith (CHR 0x22) (member kv @ rest)"
  "parseChars (tl (member kv @ rest)) = Some (fst kv, CHR '':'' # stringifyJSON (snd kv) @ rest)"
  by (simp_all add: member_def quote_def skipWs_Cons isWs_def startsWith_Cons parseChars_quoted)

lemma parseMembers_ok:
  assumes ih: "\<And>k j n rest. (k, j) \<in> set kvs \<Longrightarrow> needV j \<le> n \<Longrightarrow> okRest rest \<Longrightarrow>
                 parseValue n (stringifyJSON j @ rest) = Some (j, rest)"
    and "kvs \<noteq> []" and "needM kvs \<le> n"
  shows "parseMembers n (commaSep (map member kvs) @ CHR ''}'' # rest) = Some (kvs, rest)"
  using assms
proof (induction kvs arbitrary: n)
  case Nil
  then show ?case by simp
next
  case (Cons kv kvs)
  obtain k j where kv: "kv = (k, j)" by (cases kv)
  from Cons.prems(3) kv obtain m where n: "n = Suc m" and mj: "needV j \<le> m" and ml: "needM kvs \<le> m"
    by (cases n) (auto simp: needM_def)
  show ?case
  proof (cases "kvs = []")
    case True
    have "parseValue m (stringifyJSON j @ CHR ''}'' # rest) = Some (j, CHR ''}'' # rest)"
      using Cons.prems(1)[of k j m "CHR ''}'' # rest"] mj kv by (simp add: okRest_def)
    then show ?thesis using True n kv parseMember_key[of "(k, j)" "CHR ''}'' # rest"]
      by (simp add: skipWs_Cons isWs_def startsWith_Cons)
  next
    case False
    let ?tail = "commaSep (map member kvs) @ CHR ''}'' # rest"
    obtain kv' kvs' where kvs: "kvs = kv' # kvs'" using False by (cases kvs) auto
    have v: "parseValue m (stringifyJSON j @ CHR '','' # ?tail) = Some (j, CHR '','' # ?tail)"
      using Cons.prems(1)[of k j m "CHR '','' # ?tail"] mj kv by (simp add: okRest_def)
    have t: "parseMembers m ?tail = Some (kvs, rest)"
    proof (rule Cons.IH)
      show "\<And>k j n rest. (k, j) \<in> set kvs \<Longrightarrow> needV j \<le> n \<Longrightarrow> okRest rest \<Longrightarrow>
                 parseValue n (stringifyJSON j @ rest) = Some (j, rest)"
        using Cons.prems(1) by (meson list.set_intros(2))
      show "kvs \<noteq> []" by (rule False)
      show "needM kvs \<le> m" by (rule ml)
    qed
    have "commaSep (map member (kv # kvs)) = member (k, j) @ CHR '','' # commaSep (map member kvs)"
      using kvs kv by simp
    then show ?thesis using n v t kv parseMember_key[of "(k, j)" "CHR '','' # ?tail"]
      by (simp add: skipWs_Cons isWs_def startsWith_Cons)
  qed
qed

lemma stringifyJSON_JObj: "stringifyJSON (JObj kvs) = CHR ''{'' # commaSep (map member kvs) @ ''}''"
proof -
  have "(\<lambda>(k, v). quote k @ CHR '':'' # stringifyJSON v) = member"
    by (auto simp: member_def fun_eq_iff)
  then show ?thesis by simp
qed

lemma commaSep_start:
  "xs \<noteq> [] \<Longrightarrow> hd xs \<noteq> [] \<Longrightarrow> commaSep xs \<noteq> [] \<and> hd (commaSep xs) = hd (hd xs)"
  by (induction xs rule: commaSep.induct) auto

lemma parseValue_stringifyJSON:
  "needV v \<le> n \<Longrightarrow> okRest rest \<Longrightarrow> parseValue n (stringifyJSON v @ rest) = Some (v, rest)"
proof (induction v arbitrary: n rest)
  case JNull
  then obtain m where "n = Suc m" by (cases n) auto
  then show ?case using JNull parseValue_leaf(1)[of m rest] by (simp del: stringifyJSON.simps)
next
  case (JBool b)
  then obtain m where "n = Suc m" by (cases n) auto
  then show ?case using JBool parseValue_leaf(2)[of m b rest] by (simp del: stringifyJSON.simps)
next
  case (JNum i)
  then obtain m where "n = Suc m" by (cases n) auto
  then show ?case using JNum parseValue_num[of rest m i] by (simp del: stringifyJSON.simps)
next
  case (JStr s)
  then obtain m where "n = Suc m" by (cases n) auto
  then show ?case using JStr parseValue_leaf(3)[of m s rest] by (simp del: stringifyJSON.simps)
next
  case (JArr js)
  from JArr.prems obtain m where n: "n = Suc m" and m: "needL js \<le> m"
    by (cases n) (auto simp: needL_def)
  show ?case
  proof (cases js)
    case Nil
    then show ?thesis using n by (simp add: skipWs_Cons isWs_def startsWith_Cons)
  next
    case (Cons j js')
    let ?body = "commaSep (map stringifyJSON js) @ CHR '']'' # rest"
    have e: "parseElems m ?body = Some (js, rest)"
      using parseElems_ok[of js m rest] JArr.IH m Cons by simp
    have "commaSep (map stringifyJSON js) \<noteq> [] \<and>
          hd (commaSep (map stringifyJSON js)) = hd (stringifyJSON j)"
      using commaSep_start[of "map stringifyJSON js"] Cons stringifyJSON_not_Nil by simp
    then obtain c cs where b: "commaSep (map stringifyJSON js) = c # cs" and c: "valueStart c"
      using hd_stringifyJSON[of j] by (cases "commaSep (map stringifyJSON js)") auto
    have nws: "\<not> isWs c" and ncl: "c \<noteq> CHR '']''"
      using c by (auto simp: valueStart_def isWs_def is_digit_def)
    show ?thesis using n e b nws ncl
      by (simp add: skipWs_Cons isWs_def startsWith_Cons)
  qed
next
  case (JObj kvs)
  from JObj.prems obtain m where n: "n = Suc m" and m: "needM kvs \<le> m"
    by (cases n) (auto simp: needM_def)
  show ?case
  proof (cases kvs)
    case Nil
    then show ?thesis using n by (simp add: skipWs_Cons isWs_def startsWith_Cons)
  next
    case (Cons kv kvs')
    let ?body = "commaSep (map member kvs) @ CHR ''}'' # rest"
    have ih: "\<And>k j n rest. (k, j) \<in> set kvs \<Longrightarrow> needV j \<le> n \<Longrightarrow> okRest rest \<Longrightarrow>
                 parseValue n (stringifyJSON j @ rest) = Some (j, rest)"
      using JObj.IH by force
    have e: "parseMembers m ?body = Some (kvs, rest)"
      using parseMembers_ok[of kvs m rest] ih m Cons by simp
    have "member kv \<noteq> [] \<and> hd (member kv) = CHR 0x22" by (simp add: member_def quote_def)
    then have "commaSep (map member kvs) \<noteq> [] \<and> hd (commaSep (map member kvs)) = CHR 0x22"
      using commaSep_start[of "map member kvs"] Cons by simp
    then obtain cs where b: "commaSep (map member kvs) = CHR 0x22 # cs"
      by (cases "commaSep (map member kvs)") auto
    show ?thesis unfolding stringifyJSON_JObj using n e b
      by (simp add: skipWs_Cons isWs_def startsWith_Cons)
  qed
qed

lemma length_commaSep_bound:
  assumes "\<And>x. x \<in> set xs \<Longrightarrow> need x \<le> length (f x)"
  shows "foldr (\<lambda>x m. Suc (max (need x) m)) xs 0 \<le> Suc (length (commaSep (map f xs)))"
  using assms
proof (induction xs)
  case Nil
  show ?case by simp
next
  case (Cons x xs)
  have x: "need x \<le> length (f x)" using Cons.prems by simp
  have ih: "foldr (\<lambda>x m. Suc (max (need x) m)) xs 0 \<le> Suc (length (commaSep (map f xs)))"
    using Cons by simp
  show ?case
  proof (cases xs)
    case Nil
    then show ?thesis using x by simp
  next
    case (Cons y ys)
    then have "length (commaSep (map f (x # xs))) = length (f x) + Suc (length (commaSep (map f xs)))"
      by simp
    then show ?thesis using x ih by simp
  qed
qed

lemma needV_JArr:
  assumes "\<And>j. j \<in> set js \<Longrightarrow> needV j \<le> length (stringifyJSON j)"
  shows "needV (JArr js) \<le> length (stringifyJSON (JArr js))"
proof -
  have "foldr (\<lambda>j m. Suc (max (needV j) m)) js 0 \<le> Suc (length (commaSep (map stringifyJSON js)))"
    using assms by (rule length_commaSep_bound)
  then show ?thesis by simp
qed

lemma needV_JObj:
  assumes "\<And>k j. (k, j) \<in> set kvs \<Longrightarrow> needV j \<le> length (stringifyJSON j)"
  shows "needV (JObj kvs) \<le> length (stringifyJSON (JObj kvs))"
proof -
  have "\<And>kv. kv \<in> set kvs \<Longrightarrow> needV (snd kv) \<le> length (member kv)"
  proof -
    fix kv assume "kv \<in> set kvs"
    then have "needV (snd kv) \<le> length (stringifyJSON (snd kv))"
      using assms[of "fst kv" "snd kv"] by simp
    then show "needV (snd kv) \<le> length (member kv)" by (simp add: member_def)
  qed
  then have "foldr (\<lambda>kv m. Suc (max (needV (snd kv)) m)) kvs 0 \<le> Suc (length (commaSep (map member kvs)))"
    by (rule length_commaSep_bound)
  then show ?thesis unfolding stringifyJSON_JObj by (simp add: case_prod_unfold)
qed

lemma needV_le_length: "needV v \<le> length (stringifyJSON v)"
proof (induction v)
  case (JArr js)
  then show ?case by (intro needV_JArr)
next
  case (JObj kvs)
  show ?case
  proof (rule needV_JObj)
    fix k j assume "(k, j) \<in> set kvs"
    then show "needV j \<le> length (stringifyJSON j)"
      using JObj[of "(k, j)" j] by simp
  qed
next
  case (JNum i)
  show ?case using toString_not_Nil[of i] by (simp add: Suc_le_eq)
next
  case (JStr s)
  show ?case by (simp add: quote_def)
next
  case (JBool b)
  show ?case by simp
next
  case JNull
  show ?case by simp
qed

lemma parseJSON_stringifyJSON: "parseJSON (stringifyJSON v) = Some v"
proof -
  have "parseValue (Suc (length (stringifyJSON v))) (stringifyJSON v @ []) = Some (v, [])"
    using needV_le_length[of v] parseValue_stringifyJSON[of v "Suc (length (stringifyJSON v))" "[]"]
    by (simp add: okRest_def del: stringifyJSON.simps)
  then show ?thesis by (simp add: parseJSON_def skipWs_def)
qed

section \<open>Properties of the vocabulary index\<close>

lemma dedupeStep_words: "word ` set (dedupeStep acc x) = insert (word x) (word ` set acc)"
  by (auto simp: dedupeStep_def list_ex_iff intro: rev_image_eqI)

lemma dedupeStep_distinct:
  "distinct (map word acc) \<Longrightarrow> distinct (map word (dedupeStep acc x))"
  by (auto simp: dedupeStep_def list_ex_iff)

lemma dedupe_words: "word ` set (foldl dedupeStep acc xs) = word ` set acc \<union> word ` set xs"
  by (induction xs arbitrary: acc) (simp_all add: dedupeStep_words)

lemma dedupe_distinct:
  "distinct (map word acc) \<Longrightarrow> distinct (map word (foldl dedupeStep acc xs))"
  by (induction xs arbitrary: acc) (simp_all add: dedupeStep_distinct)

lemma find_append: "find P (xs @ ys) = (case find P xs of Some x \<Rightarrow> Some x | None \<Rightarrow> find P ys)"
  by (induction xs) auto

lemma dedupe_find:
  "find (\<lambda>e. word e = w) (foldl dedupeStep acc xs) =
     (case find (\<lambda>e. word e = w) acc of Some e \<Rightarrow> Some e | None \<Rightarrow> find (\<lambda>e. word e = w) xs)"
proof (induction xs arbitrary: acc)
  case Nil
  show ?case by (simp split: option.splits)
next
  case (Cons x xs)
  show ?case
  proof (cases "list_ex (\<lambda>v. word v = word x) acc")
    case True
    then have step: "dedupeStep acc x = acc" by (simp add: dedupeStep_def)
    from True have "word x = w \<Longrightarrow> find (\<lambda>e. word e = w) acc \<noteq> None"
      by (auto simp: list_ex_iff find_None_iff)
    then show ?thesis using Cons[of acc] step by (auto split: option.splits)
  next
    case False
    then have step: "dedupeStep acc x = acc @ [x]" by (simp add: dedupeStep_def)
    show ?thesis using Cons[of "acc @ [x]"] step
      by (auto simp: find_append split: option.splits)
  qed
qed

(* sort *)
lemma mset_insertBy: "mset (insertBy cmp x ys) = add_mset x (mset ys)"
  by (induction ys) auto

lemma mset_sortBy: "mset (sortBy cmp xs) = mset xs"
  by (induction xs) (auto simp: sortBy_def mset_insertBy)

lemma set_insertBy: "set (insertBy cmp x ys) = insert x (set ys)"
  by (induction ys) auto

lemma sorted_insertBy:
  assumes "consistentComparator cmp" and "sorted_wrt (\<lambda>a b. cmp a b \<le> 0) ys"
  shows "sorted_wrt (\<lambda>a b. cmp a b \<le> 0) (insertBy cmp x ys)"
  using assms(2)
proof (induction ys)
  case Nil
  show ?case by simp
next
  case (Cons y ys)
  have tot: "\<And>a b. cmp a b \<le> 0 \<or> cmp b a \<le> 0"
    and tr: "\<And>a b c. cmp a b \<le> 0 \<Longrightarrow> cmp b c \<le> 0 \<Longrightarrow> cmp a c \<le> 0"
    using assms(1) unfolding consistentComparator_def by blast+
  show ?case
  proof (cases "cmp x y \<le> 0")
    case True
    then have "\<forall>z \<in> set ys. cmp x z \<le> 0" using Cons.prems tr by auto
    then show ?thesis using True Cons.prems by simp
  next
    case False
    then have "cmp y x \<le> 0" using tot[of x y] by simp
    then show ?thesis using False Cons by (auto simp: set_insertBy)
  qed
qed

lemma sorted_sortBy:
  "consistentComparator cmp \<Longrightarrow> sorted_wrt (\<lambda>a b. cmp a b \<le> 0) (sortBy cmp xs)"
  by (induction xs) (auto simp: sortBy_def sorted_insertBy)

lemma distinct_map_mset_cong:
  assumes "mset xs = mset ys" shows "distinct (map f xs) = distinct (map f ys)"
proof -
  have "mset (map f xs) = mset (map f ys)" using assms by simp
  then show ?thesis by (rule mset_eq_imp_distinct_iff)
qed

lemma find_unique_key:
  "distinct (map f xs) \<Longrightarrow> e \<in> set xs \<Longrightarrow> find (\<lambda>x. f x = f e) xs = Some e"
  by (induction xs) (auto simp: image_iff)

lemma allVocab_mset: "mset (allVocab cmp items) = mset (foldl dedupeStep [] (flatVocab items))"
  by (simp add: allVocab_def mset_sortBy)

lemma allVocab_distinct: "distinct (map word (allVocab cmp items))"
  using distinct_map_mset_cong[OF allVocab_mset, of word cmp items] dedupe_distinct[of "[]"]
  by simp

lemma allVocab_first:
  assumes "e \<in> set (allVocab cmp items)"
  shows "find (\<lambda>x. word x = word e) (flatVocab items) = Some e"
proof -
  have "e \<in> set (foldl dedupeStep [] (flatVocab items))"
    using assms allVocab_mset[of cmp items] by (metis mset_eq_setD)
  moreover have "distinct (map word (foldl dedupeStep [] (flatVocab items)))"
    using dedupe_distinct[of "[]"] by simp
  ultimately have "find (\<lambda>x. word x = word e) (foldl dedupeStep [] (flatVocab items)) = Some e"
    by (rule find_unique_key[rotated])
  then show ?thesis by (simp add: dedupe_find)
qed

lemma allVocab_words: "word ` set (allVocab cmp items) = word ` set (flatVocab items)"
proof -
  have "set (allVocab cmp items) = set (foldl dedupeStep [] (flatVocab items))"
    using allVocab_mset[of cmp items] by (metis mset_eq_setD)
  then show ?thesis using dedupe_words[of "[]" "flatVocab items"] by simp
qed

lemma find_flatVocab:
  assumes "items = pre @ r # post"
    and "\<forall>p \<in> set pre. w \<notin> word ` set (vocabulary p)"
    and "vocabulary r = vs1 @ v # vs2"
    and "w \<notin> word ` set vs1" and "word v = w"
  shows "find (\<lambda>x. word x = w) (flatVocab items) = Some (tagged r v)"
proof -
  have pre: "find (\<lambda>x. word x = w) (flatVocab pre) = None"
    using assms(2) by (auto simp: find_None_iff flatVocab_def tagged_def)
  have vs1: "find (\<lambda>x. word x = w) (map (tagged r) vs1) = None"
    using assms(4) by (auto simp: find_None_iff tagged_def)
  have "flatVocab items = flatVocab pre @ (map (tagged r) vs1 @ tagged r v # map (tagged r) vs2) @ flatVocab post"
    using assms(1,3) by (simp add: flatVocab_def)
  then show ?thesis using pre vs1 assms(5)
    by (simp add: find_append tagged_def)
qed

lemma includes_refl: "includes_str s s"
  by (simp add: includes_str_def)
lemma includes_Nil: "includes_str s []"
  by (simp add: includes_str_def)

lemma filteredVocab_empty: "toLowerCase [] = [] \<Longrightarrow> filteredVocab toLowerCase [] vocab = vocab"
  by (simp add: filteredVocab_def includes_Nil)

lemma flatVocab_mem:
  "e \<in> set (flatVocab items) \<Longrightarrow> \<exists>r \<in> set items. \<exists>v \<in> set (vocabulary r). e = tagged r v"
  by (auto simp: flatVocab_def)

lemma tagged_fields:
  "word (tagged r v) = word v" "reading (tagged r v) = reading v"
  "meaning (tagged r v) = meaning v" "partOfSpeech (tagged r v) = partOfSpeech v"
  "VocabEntry.language (tagged r v) = Payload.language r"
  by (simp_all add: tagged_def)

lemma allVocab_subset: "set (allVocab cmp items) \<subseteq> set (flatVocab items)"
proof
  fix e assume "e \<in> set (allVocab cmp items)"
  then have "find (\<lambda>x. word x = word e) (flatVocab items) = Some e" by (rule allVocab_first)
  then show "e \<in> set (flatVocab items)" by (metis find_Some_iff nth_mem)
qed

section \<open>Values of the declared types\<close>

lemma those_map_Some: "(\<And>x. f (g x) = Some x) \<Longrightarrow> those (map (f \<circ> g) xs) = Some xs"
  by (induction xs) simp_all

lemma asGrammarPoint_value: "asGrammarPoint (grammarPointValue g) = Some g"
  by (simp add: grammarPointValue_def getProp_def)

lemma asVocabularyItem_value: "asVocabularyItem (vocabularyItemValue v) = Some v"
  by (simp add: vocabularyItemValue_def getProp_def)

lemma asArray_grammarPoints:
  "asArray asGrammarPoint (JArr (map grammarPointValue gs)) = Some gs"
  using those_map_Some[of asGrammarPoint grammarPointValue gs]
  by (simp add: asGrammarPoint_value)

lemma asArray_vocabulary:
  "asArray asVocabularyItem (JArr (map vocabularyItemValue vs)) = Some vs"
  using those_map_Some[of asVocabularyItem vocabularyItemValue vs]
  by (simp add: asVocabularyItem_value)

lemma asAnalysisResult_value: "asAnalysisResult (analysisResultValue r) = Some r"
  unfolding analysisResultValue_def
  by (simp add: getProp_def asArray_grammarPoints asArray_vocabulary del: asArray.simps)

lemma asHistory_value: "asHistory (historyValue h) = Some h"
  using those_map_Some[of asAnalysisResult analysisResultValue h]
  by (simp add: asHistory_def historyValue_def asAnalysisResult_value)

section \<open>Properties of the sample environments\<close>

lemma sampleResponse_parses:
  "parseJSON sampleResponse =
     Some (JObj [(''language'', JStr ''Japanese''), (''translation'', JStr ''The cat is sleeping''),
       (''grammarPoints'', JArr [JObj [(''pattern'', JStr ''wa''), (''explanation'', JStr ''topic marker'')]]),
       (''vocabulary'', JArr [JObj [(''word'', JStr ''neko''), (''reading'', JStr ''neko''),
          (''meaning'', JStr ''cat''), (''partOfSpeech'', JStr ''noun'')]])])"
  by code_simp

lemma sampleResponse_not_Nil: "sampleResponse \<noteq> []"
  by (simp add: sampleResponse_def)

lemma sampleEnv_analyzes:
  "\<exists>j. analyzeSentence sampleEnv text = Inr j \<and> asPayload j = Some samplePayload"
  by (simp add: analyzeSentence_def getAI_def sampleEnv_def sampleService_def
      sampleResponse_parses sampleResponse_not_Nil getProp_def samplePayload_def)

lemma codeUnitCompare_total: "codeUnitCompare a b \<le> 0 \<or> codeUnitCompare b a \<le> 0"
proof (induction a b rule: codeUnitCompare.induct)
  case (4 x xs y ys)
  show ?case
  proof (cases "(of_char x :: nat) < of_char y")
    case True
    then show ?thesis by simp
  next
    case False
    note nlt = this
    show ?thesis
    proof (cases "(of_char y :: nat) < of_char x")
      case True
      then show ?thesis using nlt by simp
    next
      case False
      then show ?thesis using nlt 4 by simp
    qed
  qed
qed simp_all

lemma codeUnitCompare_trans:
  "codeUnitCompare a b \<le> 0 \<Longrightarrow> codeUnitCompare b c \<le> 0 \<Longrightarrow> codeUnitCompare a c \<le> 0"
proof (induction a b arbitrary: c rule: codeUnitCompare.induct)
  case 1
  then show ?case by simp
next
  case (2 y ys)
  then show ?case by (cases c) simp_all
next
  case (3 x xs)
  then show ?case by simp
next
  case (4 x xs y ys)
  show ?case
  proof (cases c)
    case Nil
    then show ?thesis using "4.prems" by simp
  next
    case (Cons z zs)
    consider (lt) "(of_char x :: nat) < of_char y"
      | (eq) "(of_char x :: nat) = of_char y" "codeUnitCompare xs ys \<le> 0"
      using "4.prems"(1) by (auto split: if_splits)
    then show ?thesis
    proof cases
      case lt
      have "(of_char y :: nat) \<le> of_char z" using "4.prems"(2) Cons by (simp split: if_splits)
      then show ?thesis using lt Cons by simp
    next
      case eq
      have "(of_char y :: nat) < of_char z \<or> ((of_char y :: nat) = of_char z \<and> codeUnitCompare ys zs \<le> 0)"
        using "4.prems"(2) Cons by (auto split: if_splits)
      then show ?thesis
      proof
        assume "(of_char y :: nat) < of_char z"
        then show ?thesis using eq Cons by simp
      next
        assume a: "(of_char y :: nat) = of_char z \<and> codeUnitCompare ys zs \<le> 0"
        then have "codeUnitCompare xs zs \<le> 0" using "4.IH"[of zs] eq by simp
        then show ?thesis using a eq Cons by simp
      qed
    qed
  qed
qed

lemma codeUnitCompare_consistent: "consistentComparator codeUnitCompare"
  unfolding consistentComparator_def
  using codeUnitCompare_total codeUnitCompare_trans by blast

lemma corrupt_text_fails: \<open>parseJSON ''[{"id":"17'' = None\<close>
  by code_simp

lemma null_text_parses: "parseJSON ''null'' = Some JNull"
  by code_simp

section \<open>The claims of the specification\<close>

text \<open>
  C1. When \<open>analyzeSentence\<close> returns a value of the payload type \<open>P\<close> for the text \<open>T\<close>,
  \<open>handleAnalyze\<close> puts one record in front of the history: its \<open>original\<close> is \<open>T\<close>, and
  its translation, language, grammar points and vocabulary are those of \<open>P\<close>. The
  records stored before follow it, unchanged and in their order. This holds as well when
  the call settles on a later state.
\<close>

theorem handleAnalyze_appends_payload:
  assumes "analyzeSentence env T = Inr j" and "asPayload j = Some P"
  shows "handleAnalyze env s T now1 now2 =
           Typed (s\<lparr>history := fullResult P T now1 now2 # history s, isAnalyzing := False\<rparr>)
       \<and> handleAnalyze_settle env T now1 now2 s' =
           Typed (s'\<lparr>history := fullResult P T now1 now2 # history s', isAnalyzing := False\<rparr>)
       \<and> original (fullResult P T now1 now2) = T
       \<and> translation (fullResult P T now1 now2) = translation P
       \<and> Payload.language (fullResult P T now1 now2) = Payload.language P
       \<and> grammarPoints (fullResult P T now1 now2) = grammarPoints P
       \<and> vocabulary (fullResult P T now1 now2) = vocabulary P"
  using assms
  by (simp add: handleAnalyze_def handleAnalyze_settle_def handleAnalyze_begin_def fullResult_def)

theorem handleAnalyze_appends_payload_witness:
  "handleAnalyze sampleEnv initialState ''neko'' 1700000000000 1700000000001 =
     Typed (initialState\<lparr>history :=
       [fullResult samplePayload ''neko'' 1700000000000 1700000000001]\<rparr>)
   \<and> original (fullResult samplePayload ''neko'' 1700000000000 1700000000001) = ''neko''
   \<and> translation (fullResult samplePayload ''neko'' 1700000000000 1700000000001)
       = ''The cat is sleeping''"
proof -
  obtain j where j: "analyzeSentence sampleEnv ''neko'' = Inr j" "asPayload j = Some samplePayload"
    using sampleEnv_analyzes[of "''neko''"] by blast
  show ?thesis
    using handleAnalyze_appends_payload[OF j, of initialState 1700000000000 1700000000001 initialState]
    by (simp add: initialState_def samplePayload_def)
qed

text \<open>
  C2, as the code has it. The id of a record is the decimal numeral of the reading of
  \<open>Date.now()\<close> taken when its analysis settles. Two records have the same id exactly
  when these readings are equal, and an id read as a number is the reading: ids follow
  the order of creation as far as the clock does.
\<close>

theorem ident_is_clock_reading:
  "AnalysisResult.ident (fullResult P T now1 now2) = toString now1
   \<and> (AnalysisResult.ident (fullResult P T now1 now2) = AnalysisResult.ident (fullResult P' T' now1' now2'))
       = (now1 = now1')
   \<and> parseNumber (AnalysisResult.ident (fullResult P T now1 now2)) = Some (JNum now1, [])"
  using parseNumber_toString[of "[]" now1]
  by (simp add: fullResult_def toString_inj okRest_def)

text \<open>
  C2 as stated fails: two analyses that settle at the same reading of the clock give two
  records with the same id.
\<close>

theorem same_reading_same_id:
  "handleAnalyze sampleEnv initialState ''neko'' 1700000000000 1700000000000 = Typed onceAnalyzed
   \<and> handleAnalyze sampleEnv onceAnalyzed ''inu'' 1700000000000 1700000000000 = Typed twiceAnalyzed
   \<and> map AnalysisResult.ident (history twiceAnalyzed) = [''1700000000000'', ''1700000000000'']"
proof -
  obtain j where j: "analyzeSentence sampleEnv ''neko'' = Inr j" "asPayload j = Some samplePayload"
    using sampleEnv_analyzes[of "''neko''"] by blast
  obtain k where k: "analyzeSentence sampleEnv ''inu'' = Inr k" "asPayload k = Some samplePayload"
    using sampleEnv_analyzes[of "''inu''"] by blast
  have t: "toString 1700000000000 = ''1700000000000''"
    by (simp add: toString_def digits.simps digit_char_def)
  show ?thesis
    using j k t
    by (simp add: handleAnalyze_def handleAnalyze_settle_def handleAnalyze_begin_def
        onceAnalyzed_def twiceAnalyzed_def initialState_def fullResult_def)
qed

text \<open>
  C3, as the code has it. When the service answers, \<open>askTutor\<close> returns the text of the
  response unchanged if it is not empty, and the fixed sentence
  \<open>I couldn't generate an answer.\<close> if it is empty or absent. It raises no error for an
  empty response.
\<close>

theorem askTutor_passthrough_or_default:
  assumes "getAI env = Inr ()" and "generateContent env (TutorRequest q c) = Response text"
  shows "(text = None \<or> text = Some [] \<longrightarrow> askTutor env q c = Inr ''I couldn't generate an answer.'')
       \<and> (\<forall>t. text = Some t \<and> t \<noteq> [] \<longrightarrow> askTutor env q c = Inr t)"
  using assms by (auto simp: askTutor_def orElse_def)

theorem askTutor_passthrough_or_default_witness:
  "getAI sampleEnv = Inr () \<and> generateContent sampleEnv (TutorRequest ''why?'' None) = Response (Some sampleResponse)
   \<and> askTutor sampleEnv ''why?'' None = Inr sampleResponse
   \<and> getAI silentEnv = Inr () \<and> generateContent silentEnv (TutorRequest ''why?'' None) = Response None
   \<and> askTutor silentEnv ''why?'' None = Inr ''I couldn't generate an answer.''"
proof -
  have a: "getAI sampleEnv = Inr ()" and b: "getAI silentEnv = Inr ()"
    by (simp_all add: getAI_def sampleEnv_def silentEnv_def)
  have c: "generateContent sampleEnv (TutorRequest ''why?'' None) = Response (Some sampleResponse)"
    by (simp add: sampleEnv_def sampleService_def)
  have d: "generateContent silentEnv (TutorRequest ''why?'' None) = Response None"
    by (simp add: silentEnv_def silentService_def)
  show ?thesis
    using askTutor_passthrough_or_default[OF a c] askTutor_passthrough_or_default[OF b d]
      a b c d sampleResponse_not_Nil
    by simp
qed

text \<open>
  C3 as stated fails: for a response with no text \<open>askTutor\<close> returns the fixed sentence;
  it does not fail.
\<close>

theorem askTutor_empty_response_returns:
  "askTutor silentEnv ''why?'' None = Inr ''I couldn't generate an answer.''"
  by (simp add: askTutor_def getAI_def silentEnv_def silentService_def orElse_def)

text \<open>
  C4, as the code has it. A confirmed \<open>handleDelete\<close> removes every record that carries
  the id: the id is absent afterwards, the other records keep their content and order,
  and the history is shorter by the number of records with that id, which is one when
  the id occurs once. When no record carries the id the state is unchanged.
  \<open>handleDelete\<close> returns no value.
\<close>

theorem handleDelete_removes_id:
  "history (handleDelete s i True) = filter (\<lambda>item. AnalysisResult.ident item \<noteq> i) (history s)
   \<and> i \<notin> AnalysisResult.ident ` set (history (handleDelete s i True))
   \<and> length (history (handleDelete s i True)) +
       length (filter (\<lambda>item. AnalysisResult.ident item = i) (history s)) = length (history s)
   \<and> (length (filter (\<lambda>item. AnalysisResult.ident item = i) (history s)) = 1 \<longrightarrow>
        length (history (handleDelete s i True)) = length (history s) - 1)
   \<and> (i \<notin> AnalysisResult.ident ` set (history s) \<longrightarrow> handleDelete s i True = s)"
proof -
  have len: "length (filter (\<lambda>item. AnalysisResult.ident item \<noteq> i) (history s)) +
             length (filter (\<lambda>item. AnalysisResult.ident item = i) (history s)) = length (history s)"
    using sum_length_filter_compl[of "\<lambda>item. AnalysisResult.ident item = i" "history s"]
    by (simp add: add.commute)
  have same: "i \<notin> AnalysisResult.ident ` set (history s) \<Longrightarrow>
              filter (\<lambda>item. AnalysisResult.ident item \<noteq> i) (history s) = history s"
    by (rule filter_True) auto
  show ?thesis using len same by (auto simp: handleDelete_def)
qed

theorem handleDelete_removes_id_witness:
  "length (filter (\<lambda>item. AnalysisResult.ident item = ''1700000000000'') (history onceAnalyzed)) = 1
   \<and> length (history (handleDelete onceAnalyzed ''1700000000000'' True)) = length (history onceAnalyzed) - 1
   \<and> ''42'' \<notin> AnalysisResult.ident ` set (history onceAnalyzed)
   \<and> handleDelete onceAnalyzed ''42'' True = onceAnalyzed"
proof -
  have t: "toString 1700000000000 = ''1700000000000''"
    by (simp add: toString_def digits.simps digit_char_def)
  have a: "length (filter (\<lambda>item. AnalysisResult.ident item = ''1700000000000'') (history onceAnalyzed)) = 1"
    and b: "''42'' \<notin> AnalysisResult.ident ` set (history onceAnalyzed)"
    using t by (simp_all add: onceAnalyzed_def initialState_def fullResult_def)
  have c: "length (history (handleDelete onceAnalyzed ''1700000000000'' True)) = length (history onceAnalyzed) - 1"
    using handleDelete_removes_id[of onceAnalyzed "''1700000000000''"] a by blast
  have d: "handleDelete onceAnalyzed ''42'' True = onceAnalyzed"
    using handleDelete_removes_id[of onceAnalyzed "''42''"] b by blast
  show ?thesis using a b c d by blast
qed

text \<open>
  C4 as stated fails: after two analyses that settled at the same reading of the clock,
  deleting the id they share shortens the history by two.
\<close>

theorem handleDelete_shared_id:
  "handleAnalyze sampleEnv initialState ''neko'' 1700000000000 1700000000000 = Typed onceAnalyzed
   \<and> handleAnalyze sampleEnv onceAnalyzed ''inu'' 1700000000000 1700000000000 = Typed twiceAnalyzed
   \<and> ''1700000000000'' \<in> AnalysisResult.ident ` set (history twiceAnalyzed)
   \<and> length (history twiceAnalyzed) = 2
   \<and> length (history (handleDelete twiceAnalyzed ''1700000000000'' True)) = 0"
proof -
  obtain j where j: "analyzeSentence sampleEnv ''neko'' = Inr j" "asPayload j = Some samplePayload"
    using sampleEnv_analyzes[of "''neko''"] by blast
  obtain k where k: "analyzeSentence sampleEnv ''inu'' = Inr k" "asPayload k = Some samplePayload"
    using sampleEnv_analyzes[of "''inu''"] by blast
  have t: "toString 1700000000000 = ''1700000000000''"
    by (simp add: toString_def digits.simps digit_char_def)
  show ?thesis
    using j k t
    by (simp add: handleAnalyze_def handleAnalyze_settle_def handleAnalyze_begin_def
        onceAnalyzed_def twiceAnalyzed_def initialState_def fullResult_def handleDelete_def)
qed

text \<open>
  C5. The vocabulary index never holds two entries with the same word. Every entry has
  the word, reading, meaning and part of speech of an item of some record, with the
  language of that record. When a word occurs in several records, the entry kept is the
  first one in the order of the history, which is newest first: its reading, meaning and
  part of speech are those of that item and its language is that of that record. For a
  consistent comparison function the index is sorted by word under it.
\<close>

theorem allVocab_index:
  "distinct (map word (allVocab localeCompare items))
   \<and> word ` set (allVocab localeCompare items) = word ` set (flatVocab items)
   \<and> (\<forall>e \<in> set (allVocab localeCompare items).
         find (\<lambda>x. word x = word e) (flatVocab items) = Some e)
   \<and> (\<forall>e \<in> set (allVocab localeCompare items).
         \<exists>r \<in> set items. \<exists>v \<in> set (vocabulary r).
           word e = word v \<and> reading e = reading v \<and> meaning e = meaning v
           \<and> partOfSpeech e = partOfSpeech v \<and> VocabEntry.language e = Payload.language r)
   \<and> (items = newer @ r # older
        \<and> (\<forall>p \<in> set newer. w \<notin> word ` set (vocabulary p))
        \<and> vocabulary r = vs1 @ v # vs2 \<and> w \<notin> word ` set vs1 \<and> word v = w
        \<longrightarrow> tagged r v \<in> set (allVocab localeCompare items)
          \<and> (\<forall>e \<in> set (allVocab localeCompare items). word e = w \<longrightarrow> e = tagged r v)
          \<and> (\<exists>e \<in> set (allVocab localeCompare items). word e = w)
          \<and> (\<forall>e \<in> set (allVocab localeCompare items). word e = w \<longrightarrow>
                reading e = reading v \<and> meaning e = meaning v
                \<and> partOfSpeech e = partOfSpeech v
                \<and> VocabEntry.language e = Payload.language r))
   \<and> (consistentComparator localeCompare \<longrightarrow>
        sorted_wrt (\<lambda>a b. localeCompare (word a) (word b) \<le> 0) (allVocab localeCompare items))"
proof -
  have first: "\<forall>e \<in> set (allVocab localeCompare items).
         find (\<lambda>x. word x = word e) (flatVocab items) = Some e"
    using allVocab_first by blast
  have origin: "\<forall>e \<in> set (allVocab localeCompare items).
         \<exists>r \<in> set items. \<exists>v \<in> set (vocabulary r).
           word e = word v \<and> reading e = reading v \<and> meaning e = meaning v
           \<and> partOfSpeech e = partOfSpeech v \<and> VocabEntry.language e = Payload.language r"
  proof
    fix e assume "e \<in> set (allVocab localeCompare items)"
    then have "e \<in> set (flatVocab items)" using allVocab_subset by blast
    then obtain r v where "r \<in> set items" "v \<in> set (vocabulary r)" "e = tagged r v"
      using flatVocab_mem by blast
    then show "\<exists>r \<in> set items. \<exists>v \<in> set (vocabulary r).
           word e = word v \<and> reading e = reading v \<and> meaning e = meaning v
           \<and> partOfSpeech e = partOfSpeech v \<and> VocabEntry.language e = Payload.language r"
      using tagged_fields by blast
  qed
  have newest: "tagged r v \<in> set (allVocab localeCompare items)
          \<and> (\<forall>e \<in> set (allVocab localeCompare items). word e = w \<longrightarrow> e = tagged r v)
          \<and> (\<exists>e \<in> set (allVocab localeCompare items). word e = w)
          \<and> (\<forall>e \<in> set (allVocab localeCompare items). word e = w \<longrightarrow>
                reading e = reading v \<and> meaning e = meaning v
                \<and> partOfSpeech e = partOfSpeech v
                \<and> VocabEntry.language e = Payload.language r)"
    if h: "items = newer @ r # older" "\<forall>p \<in> set newer. w \<notin> word ` set (vocabulary p)"
      "vocabulary r = vs1 @ v # vs2" "w \<notin> word ` set vs1" "word v = w"
  proof -
    have f: "find (\<lambda>x. word x = w) (flatVocab items) = Some (tagged r v)"
      using h by (rule find_flatVocab)
    then have "tagged r v \<in> set (flatVocab items)"
      by (metis find_Some_iff nth_mem)
    moreover have wt: "word (tagged r v) = w" using h(5) by (simp add: tagged_def)
    ultimately have "w \<in> word ` set (allVocab localeCompare items)"
      unfolding allVocab_words by (metis imageI)
    then obtain e where e: "e \<in> set (allVocab localeCompare items)" "word e = w" by auto
    have u: "e' = tagged r v" if "e' \<in> set (allVocab localeCompare items)" "word e' = w" for e'
      using allVocab_first[OF that(1)] that(2) f by simp
    have d: "reading e' = reading v \<and> meaning e' = meaning v \<and> partOfSpeech e' = partOfSpeech v
             \<and> VocabEntry.language e' = Payload.language r"
      if "e' \<in> set (allVocab localeCompare items)" "word e' = w" for e'
      using u[OF that] by (simp add: tagged_fields)
    show ?thesis using e u d by blast
  qed
  have sorted: "sorted_wrt (\<lambda>a b. localeCompare (word a) (word b) \<le> 0) (allVocab localeCompare items)"
    if c: "consistentComparator localeCompare"
  proof -
    have "consistentComparator (\<lambda>a b :: VocabEntry. localeCompare (word a) (word b))"
      using c unfolding consistentComparator_def by blast
    then show ?thesis unfolding allVocab_def by (rule sorted_sortBy)
  qed
  show ?thesis using allVocab_distinct allVocab_words first origin newest sorted by blast
qed

theorem allVocab_index_witness:
  "consistentComparator codeUnitCompare
   \<and> [newerRecord, olderRecord] = [] @ newerRecord # [olderRecord]
   \<and> vocabulary newerRecord = [] @ nekoItem # []
   \<and> tagged newerRecord nekoItem \<in> set (allVocab codeUnitCompare [newerRecord, olderRecord])
   \<and> distinct (map word (allVocab codeUnitCompare [newerRecord, olderRecord]))
   \<and> sorted_wrt (\<lambda>a b. codeUnitCompare (word a) (word b) \<le> 0)
        (allVocab codeUnitCompare [newerRecord, olderRecord])
   \<and> allVocab codeUnitCompare [newerRecord, olderRecord] =
        [\<lparr>word = ''inu'', reading = ''inu'', meaning = ''dog'', partOfSpeech = ''noun'',
          VocabEntry.language = ''Romaji''\<rparr>,
         \<lparr>word = ''neko'', reading = ''neko'', meaning = ''cat'', partOfSpeech = ''noun'',
          VocabEntry.language = ''Japanese''\<rparr>]"
proof -
  have v: "vocabulary newerRecord = [] @ nekoItem # []" by (simp add: newerRecord_def)
  have w: "word nekoItem = ''neko''" by (simp add: nekoItem_def)
  have m: "allVocab codeUnitCompare [newerRecord, olderRecord] =
        [\<lparr>word = ''inu'', reading = ''inu'', meaning = ''dog'', partOfSpeech = ''noun'',
          VocabEntry.language = ''Romaji''\<rparr>,
         \<lparr>word = ''neko'', reading = ''neko'', meaning = ''cat'', partOfSpeech = ''noun'',
          VocabEntry.language = ''Japanese''\<rparr>]"
    by (simp add: allVocab_def flatVocab_def tagged_def dedupeStep_def sortBy_def
        newerRecord_def olderRecord_def nekoItem_def)
  have c: "consistentComparator codeUnitCompare" by (rule codeUnitCompare_consistent)
  have n: "[newerRecord, olderRecord] = [] @ newerRecord # [olderRecord]" by simp
  have e: "\<forall>p \<in> set ([] :: AnalysisResult list). ''neko'' \<notin> word ` set (vocabulary p)" by simp
  have e2: "''neko'' \<notin> word ` set ([] :: VocabularyItem list)" by simp
  note t = allVocab_index[of codeUnitCompare "[newerRecord, olderRecord]" "[]" newerRecord
        "[olderRecord]" "''neko''" "[]" nekoItem "[]"]
  have t1: "tagged newerRecord nekoItem \<in> set (allVocab codeUnitCompare [newerRecord, olderRecord])"
    using t n e v e2 w by blast
  have t2: "distinct (map word (allVocab codeUnitCompare [newerRecord, olderRecord]))"
    using t by blast
  have t3: "sorted_wrt (\<lambda>a b. codeUnitCompare (word a) (word b) \<le> 0)
        (allVocab codeUnitCompare [newerRecord, olderRecord])"
    using t c by blast
  show ?thesis using c n v t1 t2 t3 m by blast
qed

text \<open>
  C6. With the empty search term \<open>filteredVocab\<close> returns the entries as they are. An
  entry is kept exactly when the lower-cased term is a substring of its lower-cased
  word, meaning or reading, so that terms that agree after lower-casing select the same
  entries, and a term that agrees with an entry's word after lower-casing selects that
  entry. The entries kept stay in their order.
\<close>

theorem filteredVocab_case_insensitive:
  "(toLowerCase [] = [] \<longrightarrow> filteredVocab toLowerCase [] vocab = vocab)
   \<and> (v \<in> set (filteredVocab toLowerCase searchTerm vocab) \<longleftrightarrow>
        v \<in> set vocab \<and>
        (sublist (toLowerCase searchTerm) (toLowerCase (word v))
         \<or> sublist (toLowerCase searchTerm) (toLowerCase (meaning v))
         \<or> sublist (toLowerCase searchTerm) (toLowerCase (reading v))))
   \<and> (toLowerCase searchTerm = toLowerCase term' \<longrightarrow>
        filteredVocab toLowerCase searchTerm vocab = filteredVocab toLowerCase term' vocab)
   \<and> (v \<in> set vocab \<and> toLowerCase searchTerm = toLowerCase (word v) \<longrightarrow>
        v \<in> set (filteredVocab toLowerCase searchTerm vocab))
   \<and> subseq (filteredVocab toLowerCase searchTerm vocab) vocab"
  by (auto simp: filteredVocab_def includes_str_def)

theorem filteredVocab_case_insensitive_witness:
  "asciiLower [] = []
   \<and> filteredVocab asciiLower [] [tagged olderRecord nekoItem, tagged newerRecord nekoItem]
       = [tagged olderRecord nekoItem, tagged newerRecord nekoItem]
   \<and> asciiLower ''NEKO'' = asciiLower (word (tagged newerRecord nekoItem))
   \<and> asciiLower ''NEKO'' = asciiLower ''neko''
   \<and> tagged newerRecord nekoItem \<in> set (filteredVocab asciiLower ''NEKO'' [tagged newerRecord nekoItem])
   \<and> filteredVocab asciiLower ''NEKO'' [tagged newerRecord nekoItem]
       = filteredVocab asciiLower ''neko'' [tagged newerRecord nekoItem]"
proof -
  have a: "asciiLower [] = []" by (simp add: asciiLower_def)
  have b: "asciiLower ''NEKO'' = asciiLower ''neko''" by code_simp
  have c: "word (tagged newerRecord nekoItem) = ''neko''" by (simp add: tagged_def nekoItem_def)
  have d: "asciiLower ''NEKO'' = asciiLower (word (tagged newerRecord nekoItem))"
    using b c by simp
  have m: "tagged newerRecord nekoItem \<in> set [tagged newerRecord nekoItem]" by simp
  have t1: "filteredVocab asciiLower [] [tagged olderRecord nekoItem, tagged newerRecord nekoItem]
       = [tagged olderRecord nekoItem, tagged newerRecord nekoItem]"
    using filteredVocab_case_insensitive[of asciiLower
        "[tagged olderRecord nekoItem, tagged newerRecord nekoItem]" "tagged newerRecord nekoItem" "[]" "[]"] a
    by blast
  have t2: "tagged newerRecord nekoItem \<in> set (filteredVocab asciiLower ''NEKO'' [tagged newerRecord nekoItem])"
    and t3: "filteredVocab asciiLower ''NEKO'' [tagged newerRecord nekoItem]
       = filteredVocab asciiLower ''neko'' [tagged newerRecord nekoItem]"
    using filteredVocab_case_insensitive[of asciiLower "[tagged newerRecord nekoItem]"
        "tagged newerRecord nekoItem" "''NEKO''" "''neko''"] b d m
    by blast+
  show ?thesis using a b d t1 t2 t3 by blast
qed

text \<open>
  C7. When the call to the model service is rejected, \<open>handleAnalyze\<close> leaves the history
  as it was, appends no record, and resets the busy flag; the tutor answer is untouched
  and the user is shown a notice. This holds as well when the call settles on a later
  state.
\<close>

theorem handleAnalyze_service_error:
  assumes "generateContent env (AnalyzeRequest text) = Rejected"
  shows "\<exists>e. handleAnalyze env s text now1 now2 =
             Typed (s\<lparr>console := console s @ [LoggedError e],
                      alerts := alerts s @
                        [''Sorry, I couldn't analyze that sentence. Please check your API key or internet connection.''],
                      isAnalyzing := False\<rparr>)
            \<and> handleAnalyze_settle env text now1 now2 s' =
             Typed (s'\<lparr>console := console s' @ [LoggedError e],
                      alerts := alerts s' @
                        [''Sorry, I couldn't analyze that sentence. Please check your API key or internet connection.''],
                      isAnalyzing := False\<rparr>)"
proof -
  have "analyzeSentence env text = Inl ApiKeyNotFound \<or> analyzeSentence env text = Inl GenerateFailed"
    using assms by (simp add: analyzeSentence_def getAI_def)
  then show ?thesis
    by (auto simp: handleAnalyze_def handleAnalyze_settle_def handleAnalyze_begin_def)
qed

theorem handleAnalyze_service_error_witness:
  "generateContent offlineEnv (AnalyzeRequest ''neko'') = Rejected
   \<and> (\<exists>s'. handleAnalyze offlineEnv answeredState ''neko'' 1700000000004 1700000000004 = Typed s'
        \<and> history s' = history answeredState \<and> isAnalyzing s' = False
        \<and> qaResult s' = qaResult answeredState)"
proof -
  have r: "generateContent offlineEnv (AnalyzeRequest ''neko'') = Rejected"
    by (simp add: offlineEnv_def offlineService_def)
  obtain e where "handleAnalyze offlineEnv answeredState ''neko'' 1700000000004 1700000000004 =
             Typed (answeredState\<lparr>console := console answeredState @ [LoggedError e],
                      alerts := alerts answeredState @
                        [''Sorry, I couldn't analyze that sentence. Please check your API key or internet connection.''],
                      isAnalyzing := False\<rparr>)"
    using handleAnalyze_service_error[OF r, of answeredState 1700000000004 1700000000004 answeredState]
    by blast
  then show ?thesis using r by simp
qed

text \<open>
  C8. With the model of \<open>JSON.stringify\<close> and \<open>JSON.parse\<close> above, the load effect
  applied to the storage written by the save effect yields the saved history: the same
  records, in the same order, with the same values in every field.
\<close>

theorem snapshot_roundtrip:
  assumes "JSON_stringify env = stringifyJSON" and "JSON_parse env = parseJSON"
  shows "loadHistory env (saveHistory env localStorage s) s0 = Typed (s0\<lparr>history := history s\<rparr>)
       \<and> JSON_parse env (JSON_stringify env (historyValue (history s))) = Some (historyValue (history s))
       \<and> asHistory (historyValue (history s)) = Some (history s)"
  using assms
  by (simp add: loadHistory_def saveHistory_def parseJSON_stringifyJSON asHistory_value
      stringifyJSON_not_Nil del: stringifyJSON.simps)

theorem snapshot_roundtrip_witness:
  "JSON_stringify sampleEnv = stringifyJSON \<and> JSON_parse sampleEnv = parseJSON
   \<and> loadHistory sampleEnv (saveHistory sampleEnv Map.empty twiceAnalyzed) initialState = Typed twiceAnalyzed"
proof -
  have a: "JSON_stringify sampleEnv = stringifyJSON" and b: "JSON_parse sampleEnv = parseJSON"
    by (simp_all add: sampleEnv_def)
  show ?thesis
    using snapshot_roundtrip[OF a b, of Map.empty twiceAnalyzed initialState] a b
    by (simp add: twiceAnalyzed_def)
qed

text \<open>
  C9, as the code has it. When \<open>JSON.parse\<close> throws on the stored snapshot, the load
  effect keeps the state it was given, so that the history stays empty at startup; the
  failure is written to the console and nothing else happens. A snapshot that parses is
  not validated: it becomes the history when it is a list of records, and is stored as
  parsed when it is anything else.
\<close>

theorem loadHistory_parse_failure:
  assumes "localStorage ''lingolog_history'' = Some saved"
  shows "(JSON_parse env saved = None \<longrightarrow>
           loadHistory env localStorage s =
             Typed (if saved = [] then s else s\<lparr>console := console s @ [FailedToParseHistory]\<rparr>)
         \<and> (\<exists>s'. loadHistory env localStorage initialState = Typed s' \<and> history s' = []
              \<and> alerts s' = [] \<and> (saved \<noteq> [] \<longrightarrow> console s' = [FailedToParseHistory])))
       \<and> (saved \<noteq> [] \<and> JSON_parse env saved = Some j \<longrightarrow>
           loadHistory env localStorage s =
             (case asHistory j of Some h \<Rightarrow> Typed (s\<lparr>history := h\<rparr>) | None \<Rightarrow> Untyped j))"
  using assms by (simp add: loadHistory_def initialState_def)

theorem loadHistory_parse_failure_witness:
  \<open>corruptStorage ''lingolog_history'' = Some ''[{"id":"17''
   \<and> JSON_parse sampleEnv ''[{"id":"17'' = None
   \<and> loadHistory sampleEnv corruptStorage initialState =
       Typed (initialState\<lparr>console := [FailedToParseHistory]\<rparr>)
   \<and> nullStorage ''lingolog_history'' = Some ''null''
   \<and> ''null'' \<noteq> [] \<and> JSON_parse sampleEnv ''null'' = Some JNull
   \<and> loadHistory sampleEnv nullStorage answeredState = Untyped JNull\<close>
proof -
  have a: \<open>corruptStorage ''lingolog_history'' = Some ''[{"id":"17''\<close>
    by (simp add: corruptStorage_def)
  have b: \<open>JSON_parse sampleEnv ''[{"id":"17'' = None\<close>
    by (simp add: sampleEnv_def corrupt_text_fails)
  have c: "nullStorage ''lingolog_history'' = Some ''null''"
    by (simp add: nullStorage_def)
  have d: "JSON_parse sampleEnv ''null'' = Some JNull"
    by (simp add: sampleEnv_def null_text_parses)
  have e: "asHistory JNull = None" by (simp add: asHistory_def)
  have n: "''null'' \<noteq> []" by simp
  have t1: "loadHistory sampleEnv corruptStorage initialState =
       Typed (initialState\<lparr>console := [FailedToParseHistory]\<rparr>)"
    using loadHistory_parse_failure[where localStorage = corruptStorage and env = sampleEnv
        and s = initialState, OF a] b
    by (simp add: initialState_def)
  have t2: "loadHistory sampleEnv nullStorage answeredState = Untyped JNull"
    using loadHistory_parse_failure[where localStorage = nullStorage and env = sampleEnv
        and s = answeredState and j = JNull, OF c] d e n
    by simp
  show ?thesis using a b c d n t1 t2 by blast
qed

text \<open>
  C9 as stated fails for incompatible data: the snapshot \<open>null\<close> parses, so nothing is
  caught or logged, and the history is set to \<open>null\<close>, not to the empty history.
\<close>

theorem loadHistory_null_snapshot_stored:
  "nullStorage ''lingolog_history'' = Some ''null''
   \<and> loadHistory sampleEnv nullStorage initialState = Untyped JNull"
  by (simp add: loadHistory_def sampleEnv_def null_text_parses asHistory_def nullStorage_def)

text \<open>
  C10. When \<open>askTutor\<close> throws, \<open>handleAskTutor\<close> does not call \<open>setQaResult\<close>: the answer
  shown before, if any, stays, the history is unchanged, and the busy flag is reset. The
  error is logged and the user is shown a notice.
\<close>

theorem handleAskTutor_failure_keeps_answer:
  assumes "askTutor env q (tutorContext s) = Inl e"
  shows "handleAskTutor env s q now1 now2 =
           s\<lparr>console := console s @ [LoggedError e],
             alerts := alerts s @ [''Sorry, I couldn't get an answer right now.''],
             isAnalyzing := False\<rparr>
       \<and> qaResult (handleAskTutor env s q now1 now2) = qaResult s
       \<and> history (handleAskTutor env s q now1 now2) = history s
       \<and> isAnalyzing (handleAskTutor env s q now1 now2) = False
       \<and> qaResult (handleAskTutor_settle env q (tutorContext s) now1 now2 s') = qaResult s'"
  using assms by (simp add: handleAskTutor_def handleAskTutor_settle_def)

theorem handleAskTutor_failure_keeps_answer_witness:
  "askTutor offlineEnv ''why?'' (tutorContext answeredState) = Inl GenerateFailed
   \<and> qaResult (handleAskTutor offlineEnv answeredState ''why?'' 1700000000004 1700000000004)
       = qaResult answeredState
   \<and> qaResult answeredState \<noteq> None
   \<and> isAnalyzing (handleAskTutor offlineEnv answeredState ''why?'' 1700000000004 1700000000004) = False"
proof -
  have a: "askTutor offlineEnv ''why?'' (tutorContext answeredState) = Inl GenerateFailed"
    by (simp add: askTutor_def getAI_def offlineEnv_def offlineService_def)
  show ?thesis
    using handleAskTutor_failure_keeps_answer[OF a, of 1700000000004 1700000000004 answeredState] a
    by (simp add: answeredState_def)
qed

end
